theory Spec2Isabelle
  imports Main "HOL-Library.Sublist"
begin

section \<open>The stb-tester pylint plugin (\<^verbatim>\<open>_stbt/pylint_plugin.py\<close>)\<close>

text \<open>
  The checker visits two kinds of syntax-tree node, literal constants and call
  expressions, and reports four messages (E7001 to E7004). The syntax tree and the
  inference of astroid are external to the plugin: the tree is data the checker reads,
  and what \<^verbatim>\<open>node.infer()\<close> does is recorded in the tree as the run of the
  generator it returns.
\<close>

subsection \<open>What inference returns\<close>

text \<open>
  An object yielded by \<^verbatim>\<open>node.infer()\<close>, with what the plugin reads of it:
  \<open>is_YES\<close> for \<^verbatim>\<open>inferred == YES\<close> (astroid's sentinel),
  \<open>is_FunctionDef\<close> for \<^verbatim>\<open>isinstance(inferred, FunctionDef)\<close>,
  \<open>callable\<close> for \<^verbatim>\<open>inferred.callable()\<close>, \<open>root_name\<close> for
  \<^verbatim>\<open>inferred.root().name\<close>, \<open>name\<close> for \<^verbatim>\<open>funcdef.name\<close>,
  \<open>parent_name\<close> for \<^verbatim>\<open>funcdef.parent.name\<close> and \<open>argnames\<close> for
  \<^verbatim>\<open>funcdef.argnames()\<close>. These are values that astroid supplies; the
  sentinel answers all of them in some way, which the plugin takes care never to ask.

  The parent of a function definition is a module, a class or a function, which have a
  name, or a statement that the definition is nested in: an \<^verbatim>\<open>if\<close>, a loop
  or a \<^verbatim>\<open>with\<close>, which has no attribute \<^verbatim>\<open>name\<close>, or an
  \<^verbatim>\<open>except\<close> handler, whose \<^verbatim>\<open>name\<close> is not a string.
\<close>

datatype name_attr = NoAttribute | NotAString | NameStr string

record inferred =
  is_YES :: bool
  is_FunctionDef :: bool
  callable :: bool
  root_name :: string
  name :: string
  parent_name :: name_attr
  argnames :: "string list"

text \<open>
  One run of the generator \<^verbatim>\<open>node.infer()\<close>: it yields an object and goes
  on, ends normally, or raises an exception (an instance of
  \<^verbatim>\<open>Exception\<close>), at the first step or after some objects. A run is
  finite: inference yields finitely many objects.
\<close>

datatype infer_result = StopIteration | Raise | Yield inferred infer_result

subsection \<open>Syntax-tree nodes\<close>

text \<open>
  The sub-expressions the checker looks down into (the callee and the arguments of a
  call): the text \<^verbatim>\<open>as_string()\<close>, the run of \<^verbatim>\<open>infer()\<close>, and
  whether the expression is itself a call (with its callee) or a keyword argument
  (with its name \<^verbatim>\<open>arg\<close>, which is \<^verbatim>\<open>None\<close> for \<^verbatim>\<open>**kw\<close>).
\<close>

datatype expr = ExprNode (as_string: string) (infer_gen: infer_result) (shape: expr_shape)
  and expr_shape = CallE expr | KeywordE "string option" | OtherE

datatype pyvalue = PyStr string | PyOther

text \<open>
  A visited node with its chain of parents. Of each kind only what the checker reads
  is kept: the file of a module, the qualified names of a class's
  \<^verbatim>\<open>ancestors()\<close>, the \<^verbatim>\<open>decoratornames()\<close> of a function, the callee,
  \<^verbatim>\<open>args\<close> and \<^verbatim>\<open>keywords\<close> of a call, the value of a constant.
  Of the keyword nodes in \<^verbatim>\<open>node.keywords\<close> the checker reads the name
  \<^verbatim>\<open>arg\<close> only, so the list holds these names; it is \<open>None\<close> when the
  node has no attribute \<^verbatim>\<open>keywords\<close> (before astroid 1.4, where the keyword
  nodes are among \<^verbatim>\<open>args\<close>) and \<open>Some None\<close> when the attribute is
  \<^verbatim>\<open>None\<close>.
\<close>

datatype node_kind =
    Module string
  | ClassDef "string list"
  | FunctionDef "string list"
  | BinOp
  | Expr
  | Call expr "expr list" "string option list option option"
  | Const pyvalue
  | OtherNode

datatype node = Node (kind: node_kind) (parent: "node option") (node_as_string: string)

subsection \<open>Messages and errors\<close>

datatype msg_id = E7001 | E7002 | E7003 | E7004

datatype message = Message (msgid: msg_id) (anchor: node) (msg_args: string)

text \<open>\<^verbatim>\<open>self.add_message(id, node=node, args=args)\<close> appends to the linter's messages.\<close>

definition add_message :: "msg_id \<Rightarrow> node \<Rightarrow> string \<Rightarrow> message list \<Rightarrow> message list" where
  "add_message m n a msgs = msgs @ [Message m n a]"

datatype error = AttributeError | IndexError | ValueError | TypeError

subsection \<open>The regular expressions of the checker\<close>

text \<open>
  The fragment of Python's \<^verbatim>\<open>re\<close> that the plugin's four patterns use. A
  position in the subject is the character before it (if any) and the rest of the
  subject; matching an expression at a position gives every position at which a
  match can end.
\<close>

datatype regex =
    Lit string
  | Dot_plus
  | Word_boundary
  | End_of_string
  | Alt regex regex
  | Seq regex regex

type_synonym position = "char option \<times> string"

fun lit :: "string \<Rightarrow> position \<Rightarrow> position list" where
  "lit [] st = [st]"
| "lit (c # cs) (p, []) = []"
| "lit (c # cs) (p, x # xs) = (if c = x then lit cs (Some x, xs) else [])"

text \<open>\<^verbatim>\<open>.+\<close>: one or more characters other than a line feed.\<close>

fun dot_plus :: "position \<Rightarrow> position list" where
  "dot_plus (p, []) = []"
| "dot_plus (p, x # xs) =
     (if x = CHR 0x0A then [] else (Some x, xs) # dot_plus (Some x, xs))"

text \<open>\<^verbatim>\<open>\w\<close> on byte strings: a letter, a digit or the underscore.\<close>

definition is_word :: "char \<Rightarrow> bool" where
  "is_word c \<longleftrightarrow> c \<in> set ''abcdefghijklmnopqrstuvwxyzABCDEFGHIJKLMNOPQRSTUVWXYZ0123456789_''"

definition word_before :: "position \<Rightarrow> bool" where
  "word_before st = (case fst st of None \<Rightarrow> False | Some c \<Rightarrow> is_word c)"

definition word_after :: "position \<Rightarrow> bool" where
  "word_after st = (case snd st of [] \<Rightarrow> False | c # _ \<Rightarrow> is_word c)"

text \<open>
  \<^verbatim>\<open>\b\<close> holds between a word character and a non-word character or an end of
  the subject; \<^verbatim>\<open>$\<close> holds at the end of the subject and just before a line
  feed that ends it.
\<close>

fun matches :: "regex \<Rightarrow> position \<Rightarrow> position list" where
  "matches (Lit w) st = lit w st"
| "matches Dot_plus st = dot_plus st"
| "matches Word_boundary st = (if word_before st \<noteq> word_after st then [st] else [])"
| "matches End_of_string st = (if snd st = [] \<or> snd st = [CHR 0x0A] then [st] else [])"
| "matches (Alt a b) st = matches a st @ matches b st"
| "matches (Seq a b) st = concat (map (matches b) (matches a st))"

fun positions :: "position \<Rightarrow> position list" where
  "positions (p, []) = [(p, [])]"
| "positions (p, x # xs) = (p, x # xs) # positions (Some x, xs)"

text \<open>\<^verbatim>\<open>re.search(pattern, s)\<close> as a truth value: a match starts somewhere in \<open>s\<close>.\<close>

definition re_search :: "regex \<Rightarrow> string \<Rightarrow> bool" where
  "re_search r s = list_ex (\<lambda>st. matches r st \<noteq> []) (positions (None, s))"

text \<open>\<^verbatim>\<open>r'.+\.png$'\<close>\<close>

definition png_re :: regex where
  "png_re = Seq Dot_plus (Seq (Lit ''.png'') End_of_string)"

text \<open>\<^verbatim>\<open>r'\*'\<close>\<close>

definition star_re :: regex where
  "star_re = Lit ''*''"

text \<open>\<^verbatim>\<open>r"\b(is_screen_black|match|match_text|ocr|wait_until)$"\<close>\<close>

definition unused_return_re :: regex where
  "unused_return_re =
     Seq Word_boundary
       (Seq (Alt (Lit ''is_screen_black'')
            (Alt (Lit ''match'')
            (Alt (Lit ''match_text'')
            (Alt (Lit ''ocr'') (Lit ''wait_until'')))))
          End_of_string)"

text \<open>\<^verbatim>\<open>r"\bwait_until"\<close>\<close>

definition wait_until_re :: regex where
  "wait_until_re = Seq Word_boundary (Lit ''wait_until'')"

subsection \<open>The inference adapter\<close>

text \<open>
  \<^verbatim>\<open>_infer(node)\<close>: the generator passes on what \<^verbatim>\<open>node.infer()\<close> yields,
  skipping \<^verbatim>\<open>YES\<close>; an exception of the resolver ends it
  (\<^verbatim>\<open>except Exception: pass\<close>). The list is what the generator yields in all.
\<close>

fun infer :: "infer_result \<Rightarrow> inferred list" where
  "infer StopIteration = []"
| "infer Raise = []"
| "infer (Yield inferred rest) =
     (if is_YES inferred then infer rest else inferred # infer rest)"

subsection \<open>Predicates\<close>

text \<open>\<^verbatim>\<open>s.split(sep)\<close> for a one-character separator: never the empty list.\<close>

fun split :: "char \<Rightarrow> string \<Rightarrow> string list" where
  "split sep [] = [[]]"
| "split sep (c # cs) =
     (if c = sep then [] # split sep cs
      else (case split sep cs of w # ws \<Rightarrow> (c # w) # ws | [] \<Rightarrow> [[c]]))"

text \<open>
  The loop of \<^verbatim>\<open>_is_function_named\<close> (lines 164 to 167). For a function
  definition it evaluates \<^verbatim>\<open>".".join((funcdef.parent.name, funcdef.name))\<close>,
  outside the \<^verbatim>\<open>try\<close> of \<^verbatim>\<open>_infer\<close>: this raises
  \<^verbatim>\<open>AttributeError\<close> when the parent has no attribute \<^verbatim>\<open>name\<close> and
  \<^verbatim>\<open>TypeError\<close> when that attribute is not a string; otherwise the joined name
  is \<open>p @ ''.'' @ name funcdef\<close>. The loop returns at the first definition whose
  joined name is the name asked for.
\<close>

fun is_function_named_loop :: "inferred list \<Rightarrow> string \<Rightarrow> error + bool" where
  "is_function_named_loop [] nm = Inr False"
| "is_function_named_loop (funcdef # rest) nm =
     (if is_FunctionDef funcdef then
        (case parent_name funcdef of
           NoAttribute \<Rightarrow> Inl AttributeError
         | NotAString \<Rightarrow> Inl TypeError
         | NameStr p \<Rightarrow>
             (if p @ ''.'' @ name funcdef = nm then Inr True
              else is_function_named_loop rest nm))
      else is_function_named_loop rest nm)"

text \<open>\<^verbatim>\<open>_is_function_named(func, name)\<close>\<close>

definition is_function_named :: "expr \<Rightarrow> string \<Rightarrow> error + bool" where
  "is_function_named func nm =
     (if as_string func = nm then Inr True
      else is_function_named_loop (infer (infer_gen func)) nm)"

text \<open>\<^verbatim>\<open>_is_calculated_value(node)\<close>\<close>

definition is_calculated_value :: "node \<Rightarrow> bool" where
  "is_calculated_value node =
     (case parent node of
        None \<Rightarrow> False
      | Some p \<Rightarrow>
          (case kind p of
             BinOp \<Rightarrow> True
           | Call func _ _ \<Rightarrow> last (split CHR ''.'' (as_string func)) = ''join''
           | _ \<Rightarrow> False))"

text \<open>\<^verbatim>\<open>_is_pattern_value(node)\<close>, on the node's string value.\<close>

definition is_pattern_value :: "string \<Rightarrow> bool" where
  "is_pattern_value v = re_search star_re v"

text \<open>\<^verbatim>\<open>_is_whitelisted_name(filename)\<close>\<close>

definition is_whitelisted_name :: "string \<Rightarrow> bool" where
  "is_whitelisted_name filename \<longleftrightarrow> filename = ''screenshot.png''"

definition whitelisted_functions :: "string list" where
  "whitelisted_functions =
     [''cv2.imwrite'', ''re.match'', ''re.search'', ''stbt.save_frame'',
      ''_stbt.core.save_frame'']"

text \<open>
  \<^verbatim>\<open>any(_is_function_named(func, x) for x in names)\<close>: the names are tried in
  turn, up to the first for which the answer is true; an exception ends the search.
\<close>

fun any_function_named :: "expr \<Rightarrow> string list \<Rightarrow> error + bool" where
  "any_function_named func [] = Inr False"
| "any_function_named func (x # xs) =
     (case is_function_named func x of
        Inl e \<Rightarrow> Inl e
      | Inr b \<Rightarrow> (if b then Inr True else any_function_named func xs))"

text \<open>\<^verbatim>\<open>_in_whitelisted_functions(node)\<close>\<close>

definition in_whitelisted_functions :: "node \<Rightarrow> error + bool" where
  "in_whitelisted_functions node =
     (case parent node of
        None \<Rightarrow> Inr False
      | Some p \<Rightarrow>
          (case kind p of
             Call func _ _ \<Rightarrow> any_function_named func whitelisted_functions
           | _ \<Rightarrow> Inr False))"

text \<open>
  The functions of \<^verbatim>\<open>os.path\<close> that \<^verbatim>\<open>_file_exists\<close> calls, and with
  \<open>os_path_isfile\<close> the file system at the time of the analysis.
\<close>

record os_path =
  os_path_isfile :: "string \<Rightarrow> bool"
  os_path_join :: "string \<Rightarrow> string \<Rightarrow> string"
  os_path_dirname :: "string \<Rightarrow> string"

text \<open>\<^verbatim>\<open>node.root()\<close>: the topmost parent.\<close>

fun root :: "node \<Rightarrow> node" where
  "root (Node k None s) = Node k None s"
| "root (Node k (Some p) s) = root p"

text \<open>
  \<^verbatim>\<open>_file_exists(filename, node)\<close>. Only a module has the attribute
  \<^verbatim>\<open>file\<close>.
\<close>

definition file_exists :: "os_path \<Rightarrow> string \<Rightarrow> node \<Rightarrow> error + bool" where
  "file_exists os filename node =
     (case kind (root node) of
        Module file \<Rightarrow>
          (if os_path_isfile os (os_path_join os (os_path_dirname os file) filename)
           then Inr True else Inr False)
      | _ \<Rightarrow> Inl AttributeError)"

subsection \<open>Visiting a constant\<close>

text \<open>
  A visit takes the messages so far and gives the messages after it, with the
  exception it has raised, if any: what \<^verbatim>\<open>add_message\<close> has added before an
  exception stays added.
\<close>

type_synonym outcome = "message list \<times> error option"

text \<open>
  \<^verbatim>\<open>StbtChecker.visit_const(node)\<close>. The conditions are evaluated from left to
  right and the evaluation stops at the first that fails, so
  \<^verbatim>\<open>_in_whitelisted_functions\<close> and the file system are consulted only when
  all the conditions before them hold.
\<close>

definition visit_const :: "os_path \<Rightarrow> node \<Rightarrow> message list \<Rightarrow> outcome" where
  "visit_const os node msgs =
     (case kind node of
        Const v \<Rightarrow>
          (case v of
             PyOther \<Rightarrow> (msgs, None)
           | PyStr s \<Rightarrow>
               (if re_search png_re s \<and>
                   CHR 0x0A \<notin> set s \<and>
                   \<not> is_calculated_value node \<and>
                   \<not> is_pattern_value s \<and>
                   \<not> is_whitelisted_name s
                then (case in_whitelisted_functions node of
                        Inl e \<Rightarrow> (msgs, Some e)
                      | Inr whitelisted \<Rightarrow>
                          (if \<not> whitelisted
                           then (case file_exists os s node of
                                   Inl e \<Rightarrow> (msgs, Some e)
                                 | Inr found \<Rightarrow>
                                     (if \<not> found then (add_message E7001 node s msgs, None)
                                      else (msgs, None)))
                           else (msgs, None)))
                else (msgs, None)))
      | _ \<Rightarrow> (msgs, Some AttributeError))"

subsection \<open>Callability, enclosing classes and functions\<close>

text \<open>
  The loop of \<^verbatim>\<open>_is_callable\<close>: it returns \<^verbatim>\<open>True\<close> at the first
  callable object and otherwise runs to the end, having cleared
  \<^verbatim>\<open>failed_to_infer\<close> if it ran at least once. The result is the value
  returned from inside the loop, if any, and the flag.
\<close>

fun is_callable_loop :: "inferred list \<Rightarrow> bool \<Rightarrow> bool option \<times> bool" where
  "is_callable_loop [] failed_to_infer = (None, failed_to_infer)"
| "is_callable_loop (inferred # rest) failed_to_infer =
     (if callable inferred then (Some True, False) else is_callable_loop rest False)"

text \<open>\<^verbatim>\<open>_is_callable(node)\<close>\<close>

definition is_callable :: "expr \<Rightarrow> error + bool" where
  "is_callable node =
     (case is_callable_loop (infer (infer_gen node)) True of
        (Some r, _) \<Rightarrow> Inr r
      | (None, failed_to_infer) \<Rightarrow>
          (if failed_to_infer then
             (case shape node of
                CallE func \<Rightarrow>
                  (case is_function_named func ''functools.partial'' of
                     Inl e \<Rightarrow> Inl e
                   | Inr b \<Rightarrow> (if b then Inr True else Inr False))
              | _ \<Rightarrow> Inr False)
           else Inr False))"

text \<open>
  \<^verbatim>\<open>_in_frameobject(node)\<close>: the loop \<^verbatim>\<open>while node is not None\<close> over
  the node and its parents.
\<close>

fun in_frameobject :: "node option \<Rightarrow> bool" where
  "in_frameobject None = False"
| "in_frameobject (Some (Node k p s)) =
     (case k of
        ClassDef ancestors \<Rightarrow>
          (if ''stbt.FrameObject'' \<in> set ancestors then True else in_frameobject p)
      | _ \<Rightarrow> in_frameobject p)"

text \<open>\<^verbatim>\<open>_in_property(node)\<close>\<close>

fun in_property :: "node option \<Rightarrow> bool" where
  "in_property None = False"
| "in_property (Some (Node k p s)) =
     (case k of
        FunctionDef decoratornames \<Rightarrow>
          (if ''__builtin__.property'' \<in> set decoratornames then True else in_property p)
      | _ \<Rightarrow> in_property p)"

subsection \<open>Visiting a call\<close>

text \<open>\<^verbatim>\<open>xs[i]\<close> and \<^verbatim>\<open>xs.index(x)\<close> of Python lists, with their exceptions.\<close>

definition getitem :: "'a list \<Rightarrow> nat \<Rightarrow> error + 'a" where
  "getitem xs i = (if i < length xs then Inr (xs ! i) else Inl IndexError)"

fun list_index :: "'a list \<Rightarrow> 'a \<Rightarrow> error + nat" where
  "list_index [] x = Inl ValueError"
| "list_index (y # ys) x =
     (if y = x then Inr 0
      else (case list_index ys x of Inl e \<Rightarrow> Inl e | Inr i \<Rightarrow> Inr (Suc i)))"

definition is_Keyword :: "expr \<Rightarrow> bool" where
  "is_Keyword a = (case shape a of KeywordE _ \<Rightarrow> True | _ \<Rightarrow> False)"

text \<open>
  Lines 70 to 76 of \<^verbatim>\<open>visit_callfunc\<close>: the loop over the inferred callees adds
  one message E7002 for each that is rooted in \<^verbatim>\<open>stbt\<close> or
  \<^verbatim>\<open>_stbt.core\<close>.
\<close>

fun unused_return_loop :: "node \<Rightarrow> expr \<Rightarrow> inferred list \<Rightarrow> message list \<Rightarrow> message list" where
  "unused_return_loop node func [] msgs = msgs"
| "unused_return_loop node func (inferred # rest) msgs =
     unused_return_loop node func rest
       (if root_name inferred \<in> set [''stbt'', ''_stbt.core'']
        then add_message E7002 node (as_string func) msgs else msgs)"

definition parent_is_Expr :: "node \<Rightarrow> bool" where
  "parent_is_Expr node = (case parent node of None \<Rightarrow> False | Some p \<Rightarrow> kind p = Expr)"

definition check_unused_return :: "node \<Rightarrow> expr \<Rightarrow> message list \<Rightarrow> message list" where
  "check_unused_return node func msgs =
     (if re_search unused_return_re (as_string func) then
        (if parent_is_Expr node
         then unused_return_loop node func (infer (infer_gen func)) msgs
         else msgs)
      else msgs)"

text \<open>Lines 78 to 82: the first element of \<^verbatim>\<open>node.args\<close> must be callable.\<close>

definition check_wait_until :: "node \<Rightarrow> expr \<Rightarrow> expr list \<Rightarrow> message list \<Rightarrow> outcome" where
  "check_wait_until node func args msgs =
     (if re_search wait_until_re (as_string func) then
        (if args \<noteq> [] then
           (case getitem args 0 of
              Inl e \<Rightarrow> (msgs, Some e)
            | Inr arg \<Rightarrow>
                (case is_callable arg of
                   Inl e \<Rightarrow> (msgs, Some e)
                 | Inr c \<Rightarrow>
                     (if \<not> c then (add_message E7003 node (as_string arg) msgs, None)
                      else (msgs, None))))
         else (msgs, None))
      else (msgs, None))"

text \<open>
  Lines 90 to 96: the positional arguments, and the names of the keyword arguments,
  read from \<^verbatim>\<open>node.keywords\<close> where the node has that attribute
  (\<^verbatim>\<open>node.keywords or []\<close>) and from the keyword nodes among
  \<^verbatim>\<open>node.args\<close> otherwise.
\<close>

definition positional_args :: "expr list \<Rightarrow> expr list" where
  "positional_args args = filter (\<lambda>a. \<not> is_Keyword a) args"

definition keyword_names :: "expr list \<Rightarrow> string option list option option \<Rightarrow> string option list" where
  "keyword_names args keywords =
     (case keywords of
        Some kws \<Rightarrow> (case kws of None \<Rightarrow> [] | Some ks \<Rightarrow> ks)
      | None \<Rightarrow> List.map_filter (\<lambda>a. case shape a of KeywordE k \<Rightarrow> Some k | _ \<Rightarrow> None) args)"

text \<open>Lines 85 to 99: the loop over the inferred callees.\<close>

fun frame_loop ::
  "node \<Rightarrow> expr list \<Rightarrow> string option list option option \<Rightarrow> inferred list \<Rightarrow> message list
    \<Rightarrow> outcome" where
  "frame_loop node args keywords [] msgs = (msgs, None)"
| "frame_loop node args keywords (funcdef # rest) msgs =
     (if is_FunctionDef funcdef \<and> \<not> is_YES funcdef \<and> ''frame'' \<in> set (argnames funcdef) then
        (case list_index (argnames funcdef) ''frame'' of
           Inl e \<Rightarrow> (msgs, Some e)
         | Inr index \<Rightarrow>
             (if length (positional_args args) \<le> index \<and>
                 Some ''frame'' \<notin> set (keyword_names args keywords)
              then frame_loop node args keywords rest
                     (add_message E7004 node (node_as_string node) msgs)
              else frame_loop node args keywords rest msgs))
      else frame_loop node args keywords rest msgs)"

definition check_frame ::
  "node \<Rightarrow> expr \<Rightarrow> expr list \<Rightarrow> string option list option option \<Rightarrow> message list
    \<Rightarrow> outcome" where
  "check_frame node func args keywords msgs =
     (if in_frameobject (Some node) \<and> in_property (Some node)
      then frame_loop node args keywords (infer (infer_gen func)) msgs
      else (msgs, None))"

text \<open>
  \<^verbatim>\<open>StbtChecker.visit_callfunc(node)\<close>: the three checks in turn, each on the
  messages the one before has left; an exception in one of them ends the visit.
\<close>

definition visit_callfunc :: "node \<Rightarrow> message list \<Rightarrow> outcome" where
  "visit_callfunc node msgs =
     (case kind node of
        Call func args keywords \<Rightarrow>
          (case check_wait_until node func args (check_unused_return node func msgs) of
             (msgs', Some e) \<Rightarrow> (msgs', Some e)
           | (msgs', None) \<Rightarrow> check_frame node func args keywords msgs')
      | _ \<Rightarrow> (msgs, Some AttributeError))"

section \<open>Notions used in the statements\<close>

text \<open>
  The character before a position that lies \<open>a\<close> beyond a position whose character
  before is \<open>p\<close>.
\<close>

definition before :: "char option \<Rightarrow> string \<Rightarrow> char option" where
  "before p a = (if a = [] then p else Some (last a))"

text \<open>A node followed by its parents, innermost first.\<close>

fun lineage :: "node option \<Rightarrow> node list" where
  "lineage None = []"
| "lineage (Some (Node k p s)) = Node k p s # lineage p"

definition is_FunctionDef_node :: "node \<Rightarrow> bool" where
  "is_FunctionDef_node m = (case kind m of FunctionDef _ \<Rightarrow> True | _ \<Rightarrow> False)"

definition is_ClassDef_node :: "node \<Rightarrow> bool" where
  "is_ClassDef_node m = (case kind m of ClassDef _ \<Rightarrow> True | _ \<Rightarrow> False)"

definition is_property_function :: "node \<Rightarrow> bool" where
  "is_property_function m =
     (case kind m of
        FunctionDef decoratornames \<Rightarrow> ''__builtin__.property'' \<in> set decoratornames
      | _ \<Rightarrow> False)"

definition is_frameobject_class :: "node \<Rightarrow> bool" where
  "is_frameobject_class m =
     (case kind m of
        ClassDef ancestors \<Rightarrow> ''stbt.FrameObject'' \<in> set ancestors
      | _ \<Rightarrow> False)"

text \<open>
  The specification's reading of \<^verbatim>\<open>in_property\<close> and
  \<^verbatim>\<open>in_marker_class\<close>, to compare the code with: the walk stops at the first
  function definition (class definition) and that one alone decides.
\<close>

definition innermost_function_is_property :: "node option \<Rightarrow> bool" where
  "innermost_function_is_property x =
     (case find is_FunctionDef_node (lineage x) of
        None \<Rightarrow> False
      | Some f \<Rightarrow> is_property_function f)"

definition innermost_class_is_frameobject :: "node option \<Rightarrow> bool" where
  "innermost_class_is_frameobject x =
     (case find is_ClassDef_node (lineage x) of
        None \<Rightarrow> False
      | Some c \<Rightarrow> is_frameobject_class c)"

text \<open>
  What a run of \<^verbatim>\<open>node.infer()\<close> yields before it ends, and whether it ends
  by raising.
\<close>

fun yielded :: "infer_result \<Rightarrow> inferred list" where
  "yielded StopIteration = []"
| "yielded Raise = []"
| "yielded (Yield d rest) = d # yielded rest"

fun raises :: "infer_result \<Rightarrow> bool" where
  "raises StopIteration = False"
| "raises Raise = True"
| "raises (Yield d rest) = raises rest"

text \<open>
  The conditions under which the two loops of \<^verbatim>\<open>visit_callfunc\<close> add a
  message for an inferred callee, and the number of messages with a given id.
\<close>

definition in_stbt :: "inferred \<Rightarrow> bool" where
  "in_stbt d \<longleftrightarrow> root_name d = ''stbt'' \<or> root_name d = ''_stbt.core''"

text \<open>
  The second condition is written out on the call itself: the callee is a function
  with a parameter \<^verbatim>\<open>frame\<close> at index \<open>i\<close>, the arguments that are not
  keyword nodes are at most \<open>i\<close>, and no keyword of the call is named
  \<^verbatim>\<open>frame\<close>, the keywords being those of \<^verbatim>\<open>node.keywords\<close> where the
  node has that attribute and the keyword nodes among \<^verbatim>\<open>node.args\<close> otherwise.
\<close>

definition frame_missing ::
  "expr list \<Rightarrow> string option list option option \<Rightarrow> inferred \<Rightarrow> bool" where
  "frame_missing args keywords d \<longleftrightarrow>
     is_FunctionDef d \<and> \<not> is_YES d \<and>
     (case list_index (argnames d) ''frame'' of
        Inl _ \<Rightarrow> False
      | Inr i \<Rightarrow>
          length (filter (\<lambda>a. case shape a of KeywordE _ \<Rightarrow> False | _ \<Rightarrow> True) args) \<le> i \<and>
          Some ''frame'' \<notin> set
            (case keywords of
               Some None \<Rightarrow> []
             | Some (Some ks) \<Rightarrow> ks
             | None \<Rightarrow> concat (map (\<lambda>a. case shape a of KeywordE k \<Rightarrow> [k] | _ \<Rightarrow> []) args)))"

definition count_id :: "msg_id \<Rightarrow> message list \<Rightarrow> nat" where
  "count_id m msgs = length (filter (\<lambda>x. msgid x = m) msgs)"

text \<open>
  The names in the pattern \<^verbatim>\<open>\b(is_screen_black|match|match_text|ocr|wait_until)$\<close>,
  and its alternation.
\<close>

definition return_value_names :: "string list" where
  "return_value_names = [''is_screen_black'', ''match'', ''match_text'', ''ocr'', ''wait_until'']"

definition return_value_alternatives :: regex where
  "return_value_alternatives =
     Alt (Lit ''is_screen_black'')
       (Alt (Lit ''match'') (Alt (Lit ''match_text'') (Alt (Lit ''ocr'') (Lit ''wait_until''))))"

text \<open>
  Whether a function definition's parent has a name that is a string, and the joined
  name \<^verbatim>\<open>".".join((funcdef.parent.name, funcdef.name))\<close> then.
\<close>

definition has_parent_name :: "inferred \<Rightarrow> bool" where
  "has_parent_name d = (case parent_name d of NameStr _ \<Rightarrow> True | _ \<Rightarrow> False)"

definition joined_name :: "inferred \<Rightarrow> string" where
  "joined_name d = (case parent_name d of NameStr p \<Rightarrow> p @ ''.'' @ name d | _ \<Rightarrow> [])"

text \<open>Whether a result is a value and not an exception.\<close>

definition returns :: "'a + 'b \<Rightarrow> bool" where
  "returns r = (case r of Inl _ \<Rightarrow> False | Inr _ \<Rightarrow> True)"

text \<open>
  What lines 78 to 82 of \<^verbatim>\<open>visit_callfunc\<close> come to: the exception of
  \<^verbatim>\<open>_is_callable\<close> on the first argument, or the messages added (none, or one
  E7003); and these messages alone, none when the check raises.
\<close>

definition wait_until_outcome :: "node \<Rightarrow> expr \<Rightarrow> expr list \<Rightarrow> error + message list" where
  "wait_until_outcome node func args =
     (case args of
        [] \<Rightarrow> Inr []
      | arg # _ \<Rightarrow>
          (if re_search wait_until_re (as_string func) then
             (case is_callable arg of
                Inl e \<Rightarrow> Inl e
              | Inr c \<Rightarrow> Inr (if c then [] else [Message E7003 node (as_string arg)]))
           else Inr []))"

definition wait_until_messages :: "node \<Rightarrow> expr \<Rightarrow> expr list \<Rightarrow> message list" where
  "wait_until_messages node func args =
     (case wait_until_outcome node func args of Inl _ \<Rightarrow> [] | Inr b \<Rightarrow> b)"

subsection \<open>Example trees\<close>

text \<open>
  A test script \<^verbatim>\<open>tests/test.py\<close> with a class \<^verbatim>\<open>Page\<close> derived from
  \<^verbatim>\<open>stbt.FrameObject\<close>, its property \<^verbatim>\<open>is_visible\<close>, a helper
  function defined inside the property, and a plain class defined inside the helper.
\<close>

definition ex_module :: node where
  "ex_module = Node (Module ''tests/test.py'') None ''tests.test''"

definition ex_class :: node where
  "ex_class =
     Node (ClassDef [''tests.test.Base'', ''stbt.FrameObject'', ''__builtin__.object''])
       (Some ex_module) ''class Page(Base)''"

definition ex_property :: node where
  "ex_property =
     Node (FunctionDef [''__builtin__.property'']) (Some ex_class) ''def is_visible(self)''"

definition ex_helper :: node where
  "ex_helper = Node (FunctionDef []) (Some ex_property) ''def helper()''"

definition ex_inner_class :: node where
  "ex_inner_class =
     Node (ClassDef [''__builtin__.object'']) (Some ex_helper) ''class Local(object)''"

text \<open>A statement inside the helper, and one inside the plain class.\<close>

definition ex_in_helper :: node where
  "ex_in_helper = Node OtherNode (Some ex_helper) ''return x''"

definition ex_in_inner_class :: node where
  "ex_in_inner_class = Node OtherNode (Some ex_inner_class) ''y = 1''"

text \<open>
  A file system in which \<^verbatim>\<open>tests/images/menu.png\<close> is the only file,
  and the inferred definition of \<^verbatim>\<open>stbt.match\<close>.
\<close>

definition ex_os :: os_path where
  "ex_os = \<lparr> os_path_isfile = (\<lambda>path. path \<in> set [''tests/images/menu.png'']),
             os_path_join = (\<lambda>a b. a @ ''/'' @ b),
             os_path_dirname = (\<lambda>path. ''tests'') \<rparr>"

definition ex_stbt_match :: inferred where
  "ex_stbt_match =
     \<lparr> is_YES = False, is_FunctionDef = True, callable = True, root_name = ''_stbt.core'',
       name = ''match'', parent_name = NameStr ''_stbt.core'',
       argnames = [''image'', ''frame'', ''match_parameters'', ''region''] \<rparr>"

definition ex_match_func :: expr where
  "ex_match_func = ExprNode ''stbt.match'' (Yield ex_stbt_match StopIteration) OtherE"

definition ex_image_arg :: "string \<Rightarrow> expr" where
  "ex_image_arg s = ExprNode s StopIteration OtherE"

text \<open>
  The literal \<open>s\<close> in \<^verbatim>\<open>assert stbt.match(s)\<close>, and the literal
  \<^verbatim>\<open>".png"\<close> in \<^verbatim>\<open>if filename.endswith(".png"): pass\<close>.
\<close>

definition ex_assert_match :: "string \<Rightarrow> node" where
  "ex_assert_match s =
     Node (Call ex_match_func [ex_image_arg s] (Some None))
       (Some (Node OtherNode (Some ex_module) ''assert stbt.match(...)''))
       ''stbt.match(...)''"

definition ex_image_const :: "string \<Rightarrow> node" where
  "ex_image_const s = Node (Const (PyStr s)) (Some (ex_assert_match s)) s"

definition ex_endswith_call :: node where
  "ex_endswith_call =
     Node (Call (ExprNode ''filename.endswith'' Raise OtherE) [ex_image_arg ''.png''] (Some None))
       (Some (Node OtherNode (Some ex_module) ''if filename.endswith(...): pass''))
       ''filename.endswith(...)''"

definition ex_dot_png :: node where
  "ex_dot_png = Node (Const (PyStr ''.png'')) (Some ex_endswith_call) ''.png''"

text \<open>
  Objects that inference yields: the string object of a literal, the object of a lambda
  expression, astroid's \<^verbatim>\<open>YES\<close>, and the public re-export of
  \<^verbatim>\<open>match\<close> in the package \<^verbatim>\<open>stbt\<close>.
\<close>

definition ex_string_object :: inferred where
  "ex_string_object =
     \<lparr> is_YES = False, is_FunctionDef = False, callable = False, root_name = ''tests.test'',
       name = ''str'', parent_name = NameStr ''tests.test'', argnames = [] \<rparr>"

definition ex_lambda_object :: inferred where
  "ex_lambda_object =
     \<lparr> is_YES = False, is_FunctionDef = False, callable = True, root_name = ''tests.test'',
       name = ''<lambda>'', parent_name = NameStr ''tests.test'', argnames = [] \<rparr>"

definition ex_YES :: inferred where
  "ex_YES =
     \<lparr> is_YES = True, is_FunctionDef = True, callable = True, root_name = ''YES'',
       name = ''YES'', parent_name = NameStr ''YES'', argnames = [] \<rparr>"

definition ex_stbt_match_public :: inferred where
  "ex_stbt_match_public = ex_stbt_match \<lparr> root_name := ''stbt'', parent_name := NameStr ''stbt'' \<rparr>"

text \<open>
  Arguments: \<^verbatim>\<open>functools.partial(stbt.match, ...)\<close>, whose inference gives
  only \<^verbatim>\<open>YES\<close>; the literal \<^verbatim>\<open>"image.png"\<close>; a lambda
  expression; \<^verbatim>\<open>self._frame\<close>, positional and as the keyword argument
  \<^verbatim>\<open>frame\<close> (a node among \<^verbatim>\<open>args\<close>, as before astroid 1.4).
\<close>

definition ex_partial_func :: expr where
  "ex_partial_func = ExprNode ''functools.partial'' Raise OtherE"

definition ex_partial_arg :: expr where
  "ex_partial_arg =
     ExprNode ''functools.partial(stbt.match, ...)'' (Yield ex_YES StopIteration)
       (CallE ex_partial_func)"

definition ex_literal_arg :: expr where
  "ex_literal_arg = ExprNode ''image.png'' (Yield ex_string_object StopIteration) OtherE"

definition ex_lambda_arg :: expr where
  "ex_lambda_arg =
     ExprNode ''lambda: stbt.match(...)'' (Yield ex_lambda_object StopIteration) OtherE"

definition ex_frame_arg :: expr where
  "ex_frame_arg = ExprNode ''self._frame'' Raise OtherE"

definition ex_frame_keyword :: expr where
  "ex_frame_keyword = ExprNode ''frame=self._frame'' Raise (KeywordE (Some ''frame''))"

text \<open>
  Callees: a name \<^verbatim>\<open>match\<close> that inference resolves to two definitions (the
  script imports it from \<^verbatim>\<open>_stbt.core\<close> in one branch and from
  \<^verbatim>\<open>stbt\<close> in another), \<^verbatim>\<open>stbt.wait_for_match\<close> and
  \<^verbatim>\<open>stbt.wait_until\<close>.
\<close>

definition ex_ambiguous_match_func :: expr where
  "ex_ambiguous_match_func =
     ExprNode ''match'' (Yield ex_stbt_match (Yield ex_stbt_match_public StopIteration)) OtherE"

definition ex_wait_for_match_func :: expr where
  "ex_wait_for_match_func =
     ExprNode ''stbt.wait_for_match''
       (Yield (ex_stbt_match \<lparr> name := ''wait_for_match'',
                 argnames := [''image'', ''timeout_secs'', ''consecutive_matches'',
                   ''match_parameters'', ''region'', ''frames''] \<rparr>) StopIteration)
       OtherE"

definition ex_wait_until_func :: expr where
  "ex_wait_until_func =
     ExprNode ''stbt.wait_until''
       (Yield (ex_stbt_match \<lparr> name := ''wait_until'',
                 argnames := [''callable_'', ''timeout_secs'', ''interval_secs''] \<rparr>)
          StopIteration)
       OtherE"

text \<open>
  A call as the expression of a statement of the given kind (\<open>Expr\<close> for a bare
  expression statement, \<open>OtherNode\<close> for an assert, an assignment or a return)
  inside the node \<open>encl\<close>.
\<close>

definition ex_call ::
  "expr \<Rightarrow> expr list \<Rightarrow> string option list option option \<Rightarrow> node_kind \<Rightarrow> node \<Rightarrow> node" where
  "ex_call func args keywords statement encl =
     Node (Call func args keywords) (Some (Node statement (Some encl) ''<statement>''))
       (as_string func @ ''(...)'')"

definition ex_ambiguous_call :: node where
  "ex_ambiguous_call = ex_call ex_ambiguous_match_func [ex_literal_arg] (Some None) Expr ex_property"

definition ex_wait_for_match_statement :: node where
  "ex_wait_for_match_statement =
     ex_call ex_wait_for_match_func [ex_literal_arg] (Some None) Expr ex_module"

definition ex_match_statement :: node where
  "ex_match_statement = ex_call ex_match_func [ex_literal_arg] (Some None) Expr ex_module"

definition ex_match_asserted :: node where
  "ex_match_asserted = ex_call ex_match_func [ex_literal_arg] (Some None) OtherNode ex_module"

definition ex_wait_until_literal :: node where
  "ex_wait_until_literal =
     ex_call ex_wait_until_func [ex_literal_arg] (Some None) OtherNode ex_module"

definition ex_wait_until_lambda :: node where
  "ex_wait_until_lambda =
     ex_call ex_wait_until_func [ex_lambda_arg] (Some None) OtherNode ex_module"

definition ex_property_match :: "expr list \<Rightarrow> string option list option option \<Rightarrow> node" where
  "ex_property_match args keywords = ex_call ex_match_func args keywords OtherNode ex_property"

text \<open>
  A function \<^verbatim>\<open>f\<close> defined under an \<^verbatim>\<open>if\<close>: the parent of its
  definition has no name. The argument \<^verbatim>\<open>f(key)\<close>, whose inference gives only
  \<^verbatim>\<open>YES\<close>. A helper \<^verbatim>\<open>wait_until_match(predicate, image, frame)\<close>
  of the test script, called inside the property as
  \<^verbatim>\<open>wait_until_match(f(key), "image.png")\<close>. The keyword argument
  \<^verbatim>\<open>region=r\<close> as a node among \<^verbatim>\<open>args\<close>.
\<close>

definition ex_nested_def :: inferred where
  "ex_nested_def =
     \<lparr> is_YES = False, is_FunctionDef = True, callable = True, root_name = ''tests.test'',
       name = ''f'', parent_name = NoAttribute, argnames = [''x''] \<rparr>"

definition ex_nested_func :: expr where
  "ex_nested_func = ExprNode ''f'' (Yield ex_nested_def StopIteration) OtherE"

definition ex_nested_call_arg :: expr where
  "ex_nested_call_arg = ExprNode ''f(key)'' (Yield ex_YES StopIteration) (CallE ex_nested_func)"

definition ex_wait_until_match_def :: inferred where
  "ex_wait_until_match_def =
     \<lparr> is_YES = False, is_FunctionDef = True, callable = True, root_name = ''tests.test'',
       name = ''wait_until_match'', parent_name = NameStr ''tests.test'',
       argnames = [''predicate'', ''image'', ''frame''] \<rparr>"

definition ex_wait_until_match_func :: expr where
  "ex_wait_until_match_func =
     ExprNode ''wait_until_match'' (Yield ex_wait_until_match_def StopIteration) OtherE"

definition ex_crashing_call :: node where
  "ex_crashing_call =
     ex_call ex_wait_until_match_func [ex_nested_call_arg, ex_literal_arg] (Some None)
       OtherNode ex_property"

definition ex_region_keyword :: expr where
  "ex_region_keyword = ExprNode ''region=r'' Raise (KeywordE (Some ''region''))"

section \<open>Properties\<close>

subsection \<open>The regular expressions\<close>

lemma before_simps [simp]:
  "before p [] = p"
  "before p (x # xs) = before (Some x) xs"
  by (auto simp: before_def)

lemma before_last: "a \<noteq> [] \<Longrightarrow> before p a = Some (last a)"
  by (simp add: before_def)

lemma positions_iff:
  "st \<in> set (positions (p, s)) \<longleftrightarrow> (\<exists>a b. s = a @ b \<and> st = (before p a, b))"
proof (induction s arbitrary: p)
  case Nil
  show ?case by auto
next
  case (Cons x xs)
  show ?case
  proof
    assume "st \<in> set (positions (p, x # xs))"
    then consider "st = (p, x # xs)" | "st \<in> set (positions (Some x, xs))" by auto
    then show "\<exists>a b. x # xs = a @ b \<and> st = (before p a, b)"
    proof cases
      case 1
      then have "x # xs = [] @ (x # xs) \<and> st = (before p [], x # xs)" by simp
      then show ?thesis by (intro exI)
    next
      case 2
      then have "\<exists>a b. xs = a @ b \<and> st = (before (Some x) a, b)"
        by (simp only: Cons.IH)
      then obtain a b where "xs = a @ b" "st = (before (Some x) a, b)"
        by (elim exE conjE)
      then have "x # xs = (x # a) @ b \<and> st = (before p (x # a), b)" by simp
      then show ?thesis by (intro exI)
    qed
  next
    assume "\<exists>a b. x # xs = a @ b \<and> st = (before p a, b)"
    then obtain a b where ab: "x # xs = a @ b" "st = (before p a, b)"
      by (elim exE conjE)
    show "st \<in> set (positions (p, x # xs))"
    proof (cases a)
      case Nil
      with ab have "st = (p, x # xs)" by simp
      then show ?thesis by simp
    next
      case (Cons y ys)
      with ab have "xs = ys @ b \<and> st = (before (Some x) ys, b)" by auto
      then have "\<exists>a b. xs = a @ b \<and> st = (before (Some x) a, b)" by (intro exI)
      then have "st \<in> set (positions (Some x, xs))" by (simp only: Cons.IH)
      then show ?thesis by simp
    qed
  qed
qed

lemma positions_member: "s = a @ b \<Longrightarrow> (before p a, b) \<in> set (positions (p, s))"
  unfolding positions_iff by (intro exI [of _ a] exI [of _ b]) simp

lemma dot_plus_iff:
  "st \<in> set (dot_plus (p, s)) \<longleftrightarrow>
   (\<exists>a b. s = a @ b \<and> a \<noteq> [] \<and> CHR 0x0A \<notin> set a \<and> st = (Some (last a), b))"
proof (induction s arbitrary: p)
  case Nil
  show ?case by auto
next
  case (Cons x xs)
  show ?case
  proof
    assume m: "st \<in> set (dot_plus (p, x # xs))"
    then have nl: "x \<noteq> CHR 0x0A" by (auto split: if_splits)
    with m consider "st = (Some x, xs)" | "st \<in> set (dot_plus (Some x, xs))" by auto
    then show "\<exists>a b. x # xs = a @ b \<and> a \<noteq> [] \<and> CHR 0x0A \<notin> set a \<and> st = (Some (last a), b)"
    proof cases
      case 1
      with nl have "x # xs = [x] @ xs \<and> [x] \<noteq> [] \<and> CHR 0x0A \<notin> set [x] \<and>
          st = (Some (last [x]), xs)"
        by simp
      then show ?thesis by (intro exI)
    next
      case 2
      then have "\<exists>a b. xs = a @ b \<and> a \<noteq> [] \<and> CHR 0x0A \<notin> set a \<and> st = (Some (last a), b)"
        by (simp only: Cons.IH)
      then obtain a b where
        "xs = a @ b" "a \<noteq> []" "CHR 0x0A \<notin> set a" "st = (Some (last a), b)"
        by (elim exE conjE)
      with nl have "x # xs = (x # a) @ b \<and> x # a \<noteq> [] \<and> CHR 0x0A \<notin> set (x # a) \<and>
          st = (Some (last (x # a)), b)"
        by simp
      then show ?thesis by (intro exI)
    qed
  next
    assume "\<exists>a b. x # xs = a @ b \<and> a \<noteq> [] \<and> CHR 0x0A \<notin> set a \<and> st = (Some (last a), b)"
    then obtain a b where
      ab: "x # xs = a @ b" "a \<noteq> []" "CHR 0x0A \<notin> set a" "st = (Some (last a), b)"
      by (elim exE conjE)
    then obtain ys where a: "a = x # ys" by (cases a) auto
    with ab have nl: "x \<noteq> CHR 0x0A" by auto
    show "st \<in> set (dot_plus (p, x # xs))"
    proof (cases ys)
      case Nil
      with a ab nl show ?thesis by simp
    next
      case (Cons z zs)
      with a ab have "xs = ys @ b \<and> ys \<noteq> [] \<and> CHR 0x0A \<notin> set ys \<and> st = (Some (last ys), b)"
        by auto
      then have "\<exists>a b. xs = a @ b \<and> a \<noteq> [] \<and> CHR 0x0A \<notin> set a \<and> st = (Some (last a), b)"
        by (intro exI)
      then have "st \<in> set (dot_plus (Some x, xs))" by (simp only: Cons.IH)
      with nl show ?thesis by simp
    qed
  qed
qed

lemma dot_plus_member:
  "a \<noteq> [] \<Longrightarrow> CHR 0x0A \<notin> set a \<Longrightarrow> (Some (last a), b) \<in> set (dot_plus (p, a @ b))"
  unfolding dot_plus_iff by (intro exI [of _ a] exI [of _ b]) simp

lemma lit_eq:
  "lit w (p, s) = (if prefix w s then [(before p w, drop (length w) s)] else [])"
proof (induction w arbitrary: p s)
  case Nil
  show ?case by simp
next
  case (Cons c cs)
  show ?case by (cases s) (auto simp: Cons.IH)
qed

lemma lit_iff:
  "st \<in> set (lit w (p, s)) \<longleftrightarrow> (\<exists>b. s = w @ b \<and> st = (before p w, b))"
  by (auto simp: lit_eq prefix_def)

lemma lit_member: "(before p w, b) \<in> set (lit w (p, w @ b))"
  by (simp add: lit_eq)

lemma nonempty_iff_member: "(\<exists>x. x \<in> set ys) \<longleftrightarrow> ys \<noteq> []"
  by (cases ys) auto

lemma re_search_iff:
  "re_search r s \<longleftrightarrow> (\<exists>a b st. s = a @ b \<and> st \<in> set (matches r (before None a, b)))"
  (is "?L \<longleftrightarrow> ?R")
proof
  assume ?L
  then have "\<exists>st0 \<in> set (positions (None, s)). \<exists>st. st \<in> set (matches r st0)"
    by (simp only: re_search_def list_ex_iff nonempty_iff_member)
  then obtain st0 st where 0: "st0 \<in> set (positions (None, s))" and 1: "st \<in> set (matches r st0)"
    by (elim bexE exE)
  from 0 have "\<exists>a b. s = a @ b \<and> st0 = (before None a, b)"
    by (simp only: positions_iff)
  then obtain a b where "s = a @ b" "st0 = (before None a, b)" by (elim exE conjE)
  with 1 have "s = a @ b \<and> st \<in> set (matches r (before None a, b))" by simp
  then show ?R by (intro exI)
next
  assume ?R
  then obtain a b st where s: "s = a @ b" and 1: "st \<in> set (matches r (before None a, b))"
    by (elim exE conjE)
  from s have "(before None a, b) \<in> set (positions (None, s))" by (rule positions_member)
  with 1 have "\<exists>st0 \<in> set (positions (None, s)). \<exists>st. st \<in> set (matches r st0)"
    by (intro bexI exI)
  then show ?L
    by (simp only: re_search_def list_ex_iff nonempty_iff_member)
qed


lemma png_re_iff:
  "re_search png_re s \<longleftrightarrow>
   (\<exists>a b t. s = a @ b @ ''.png'' @ t \<and> b \<noteq> [] \<and> CHR 0x0A \<notin> set b \<and> (t = [] \<or> t = [CHR 0x0A]))"
  (is "?L \<longleftrightarrow> ?R")
proof
  assume ?L
  then obtain a b st where s: "s = a @ b" and st: "st \<in> set (matches png_re (before None a, b))"
    unfolding re_search_iff by (elim exE conjE)
  from st have "\<exists>st1 \<in> set (dot_plus (before None a, b)).
      \<exists>st2 \<in> set (lit ''.png'' st1). st \<in> set (matches End_of_string st2)"
    by (simp add: png_re_def del: lit.simps dot_plus.simps matches.simps(4))
  then obtain st1 st2 where
    1: "st1 \<in> set (dot_plus (before None a, b))" and
    2: "st2 \<in> set (lit ''.png'' st1)" and
    e3: "st \<in> set (matches End_of_string st2)"
    by (elim bexE)
  from e3 have 3: "snd st2 = [] \<or> snd st2 = [CHR 0x0A]"
    by (simp split: if_splits)
  from 1 have "\<exists>c d. b = c @ d \<and> c \<noteq> [] \<and> CHR 0x0A \<notin> set c \<and> st1 = (Some (last c), d)"
    by (simp only: dot_plus_iff)
  then obtain c d where cd: "b = c @ d" "c \<noteq> []" "CHR 0x0A \<notin> set c" "st1 = (Some (last c), d)"
    by (elim exE conjE)
  from 2 cd have "st2 \<in> set (lit ''.png'' (Some (last c), d))" by simp
  then have "\<exists>t. d = ''.png'' @ t \<and> st2 = (before (Some (last c)) ''.png'', t)"
    by (simp only: lit_iff)
  then obtain t where t: "d = ''.png'' @ t" "st2 = (before (Some (last c)) ''.png'', t)"
    by (elim exE conjE)
  from s cd t 3 have "s = a @ c @ ''.png'' @ t \<and> c \<noteq> [] \<and> CHR 0x0A \<notin> set c \<and> (t = [] \<or> t = [CHR 0x0A])"
    by simp
  then show ?R by (intro exI)
next
  assume ?R
  then obtain a b t where
    s: "s = a @ b @ ''.png'' @ t" "b \<noteq> []" "CHR 0x0A \<notin> set b" "t = [] \<or> t = [CHR 0x0A]"
    by (elim exE conjE)
  let ?st2 = "(before (Some (last b)) ''.png'', t)"
  have 1: "(Some (last b), ''.png'' @ t) \<in> set (dot_plus (before None a, b @ ''.png'' @ t))"
    using s(2,3) by (rule dot_plus_member)
  have 2: "?st2 \<in> set (lit ''.png'' (Some (last b), ''.png'' @ t))"
    by (rule lit_member)
  have 3: "?st2 \<in> set (matches End_of_string ?st2)"
    using s(4) by auto
  from 1 2 3 have "\<exists>st1 \<in> set (dot_plus (before None a, b @ ''.png'' @ t)).
      \<exists>st2 \<in> set (lit ''.png'' st1). ?st2 \<in> set (matches End_of_string st2)"
    by (intro bexI)
  then have "?st2 \<in> set (matches png_re (before None a, b @ ''.png'' @ t))"
    by (simp add: png_re_def del: lit.simps dot_plus.simps matches.simps(4))
  with s(1) have "s = a @ (b @ ''.png'' @ t) \<and> ?st2 \<in> set (matches png_re (before None a, b @ ''.png'' @ t))"
    by simp
  then show ?L unfolding re_search_iff by (intro exI)
qed

lemma png_re_no_newline:
  assumes "CHR 0x0A \<notin> set s"
  shows "re_search png_re s \<longleftrightarrow> 4 < length s \<and> suffix ''.png'' s"
proof
  assume "re_search png_re s"
  then obtain a b t where
    s: "s = a @ b @ ''.png'' @ t" "b \<noteq> []" "t = [] \<or> t = [CHR 0x0A]"
    unfolding png_re_iff by (elim exE conjE)
  with assms have t: "t = []" by auto
  with s have "s = (a @ b) @ ''.png''" by simp
  then have "suffix ''.png'' s" by (rule suffixI)
  moreover from s t have "length s = length a + length b + 4" "0 < length b" by simp_all
  then have "4 < length s" by linarith
  ultimately show "4 < length s \<and> suffix ''.png'' s" by simp
next
  assume a: "4 < length s \<and> suffix ''.png'' s"
  then obtain u where u: "s = u @ ''.png''" by (auto simp: suffix_def)
  with a have "u \<noteq> []" by auto
  moreover from assms u have "CHR 0x0A \<notin> set u" by simp
  ultimately have "s = [] @ u @ ''.png'' @ [] \<and> u \<noteq> [] \<and> CHR 0x0A \<notin> set u \<and> ([] = [] \<or> [] = [CHR 0x0A])"
    using u by simp
  then show "re_search png_re s" unfolding png_re_iff by (intro exI)
qed

lemma star_re_iff: "re_search star_re s \<longleftrightarrow> CHR ''*'' \<in> set s"
proof
  assume "re_search star_re s"
  then obtain a b st where s: "s = a @ b" and st: "st \<in> set (lit ''*'' (before None a, b))"
    unfolding re_search_iff star_re_def matches.simps by (elim exE conjE)
  from st have "\<exists>t. b = ''*'' @ t \<and> st = (before (before None a) ''*'', t)"
    by (simp only: lit_iff)
  with s show "CHR ''*'' \<in> set s" by auto
next
  assume "CHR ''*'' \<in> set s"
  then obtain a t where s: "s = a @ CHR ''*'' # t" by (auto simp: in_set_conv_decomp)
  have "(before (before None a) ''*'', t) \<in> set (lit ''*'' (before None a, ''*'' @ t))"
    by (rule lit_member)
  with s have "s = a @ (''*'' @ t) \<and>
      (before (before None a) ''*'', t) \<in> set (matches star_re (before None a, ''*'' @ t))"
    by (simp add: star_re_def del: lit.simps)
  then show "re_search star_re s" unfolding re_search_iff by (intro exI)
qed


lemma word_before_before:
  "word_before (before None pre, b) \<longleftrightarrow> pre \<noteq> [] \<and> is_word (last pre)"
  by (simp add: word_before_def before_def)

lemma alternatives_iff:
  "st' \<in> set (matches return_value_alternatives st) \<longleftrightarrow>
   (\<exists>nm \<in> set return_value_names. st' \<in> set (lit nm st))"
  by (simp add: return_value_alternatives_def return_value_names_def del: lit.simps)

lemma word_after_name:
  "nm \<in> set return_value_names \<Longrightarrow> word_after (p, nm @ post)"
  by (auto simp: return_value_names_def word_after_def is_word_def)

lemma unused_return_re_unfold:
  "st \<in> set (matches unused_return_re st0) \<longleftrightarrow>
   word_before st0 \<noteq> word_after st0 \<and>
   (\<exists>st2 \<in> set (matches return_value_alternatives st0). st \<in> set (matches End_of_string st2))"
proof -
  have eq: "unused_return_re =
      Seq Word_boundary (Seq return_value_alternatives End_of_string)"
    by (simp add: unused_return_re_def return_value_alternatives_def)
  show ?thesis
    unfolding eq by (simp del: matches.simps(4))
qed

lemma unused_return_re_iff:
  "re_search unused_return_re t \<longleftrightarrow>
   (\<exists>pre nm post. t = pre @ nm @ post \<and> nm \<in> set return_value_names \<and>
      (post = [] \<or> post = [CHR 0x0A]) \<and> (pre = [] \<or> \<not> is_word (last pre)))"
  (is "?L \<longleftrightarrow> ?R")
proof
  assume ?L
  then obtain a b st where t: "t = a @ b"
    and st: "st \<in> set (matches unused_return_re (before None a, b))"
    unfolding re_search_iff by (elim exE conjE)
  from st have wb: "word_before (before None a, b) \<noteq> word_after (before None a, b)"
    and "\<exists>st2 \<in> set (matches return_value_alternatives (before None a, b)).
           st \<in> set (matches End_of_string st2)"
    unfolding unused_return_re_unfold by simp_all
  then obtain st2 where
    2: "st2 \<in> set (matches return_value_alternatives (before None a, b))" and
    e: "st \<in> set (matches End_of_string st2)"
    by (elim bexE)
  from 2 have "\<exists>nm \<in> set return_value_names. st2 \<in> set (lit nm (before None a, b))"
    by (simp only: alternatives_iff)
  then obtain nm where nm: "nm \<in> set return_value_names"
    and l: "st2 \<in> set (lit nm (before None a, b))"
    by (elim bexE)
  from l have "\<exists>post. b = nm @ post \<and> st2 = (before (before None a) nm, post)"
    by (simp only: lit_iff)
  then obtain post where post: "b = nm @ post" "st2 = (before (before None a) nm, post)"
    by (elim exE conjE)
  from e post have fin: "post = [] \<or> post = [CHR 0x0A]"
    by (simp split: if_splits)
  from nm have "word_after (before None a, nm @ post)" by (rule word_after_name)
  with wb post have "\<not> word_before (before None a, b)" by simp
  then have "a = [] \<or> \<not> is_word (last a)"
    by (simp only: word_before_before) simp
  with t post nm fin have "t = a @ nm @ post \<and> nm \<in> set return_value_names \<and>
      (post = [] \<or> post = [CHR 0x0A]) \<and> (a = [] \<or> \<not> is_word (last a))"
    by simp
  then show ?R by (intro exI)
next
  assume ?R
  then obtain pre nm post where t: "t = pre @ nm @ post" and nm: "nm \<in> set return_value_names"
    and fin: "post = [] \<or> post = [CHR 0x0A]" and pre: "pre = [] \<or> \<not> is_word (last pre)"
    by (elim exE conjE)
  let ?st0 = "(before None pre, nm @ post)"
  let ?st2 = "(before (before None pre) nm, post)"
  from pre have "\<not> word_before ?st0"
    by (simp only: word_before_before) simp
  moreover from nm have "word_after ?st0" by (rule word_after_name)
  ultimately have wb: "word_before ?st0 \<noteq> word_after ?st0" by simp
  have "?st2 \<in> set (lit nm ?st0)" by (rule lit_member)
  with nm have "\<exists>nm \<in> set return_value_names. ?st2 \<in> set (lit nm ?st0)"
    by (rule bexI [rotated])
  then have 2: "?st2 \<in> set (matches return_value_alternatives ?st0)"
    by (simp only: alternatives_iff)
  from fin have e: "?st2 \<in> set (matches End_of_string ?st2)" by auto
  from 2 e have "\<exists>st2 \<in> set (matches return_value_alternatives ?st0).
      ?st2 \<in> set (matches End_of_string st2)"
    by (rule bexI [rotated])
  with wb have "?st2 \<in> set (matches unused_return_re ?st0)"
    by (simp only: unused_return_re_unfold) simp
  with t have "t = pre @ (nm @ post) \<and> ?st2 \<in> set (matches unused_return_re ?st0)"
    by simp
  then show ?L unfolding re_search_iff by (intro exI)
qed

lemma wait_until_re_iff:
  "re_search wait_until_re t \<longleftrightarrow>
   (\<exists>pre post. t = pre @ ''wait_until'' @ post \<and> (pre = [] \<or> \<not> is_word (last pre)))"
  (is "?L \<longleftrightarrow> ?R")
proof
  assume ?L
  then obtain a b st where t: "t = a @ b"
    and st: "st \<in> set (matches wait_until_re (before None a, b))"
    unfolding re_search_iff by (elim exE conjE)
  from st have wb: "word_before (before None a, b) \<noteq> word_after (before None a, b)"
    and l: "st \<in> set (lit ''wait_until'' (before None a, b))"
    by (simp_all add: wait_until_re_def del: lit.simps split: if_splits)
  from l have "\<exists>post. b = ''wait_until'' @ post \<and> st = (before (before None a) ''wait_until'', post)"
    by (simp only: lit_iff)
  then obtain post where post: "b = ''wait_until'' @ post"
    by (elim exE conjE)
  then have "word_after (before None a, b)"
    by (simp add: word_after_def is_word_def)
  with wb have "\<not> word_before (before None a, b)" by simp
  then have "a = [] \<or> \<not> is_word (last a)"
    by (simp only: word_before_before) simp
  with t post have "t = a @ ''wait_until'' @ post \<and> (a = [] \<or> \<not> is_word (last a))"
    by simp
  then show ?R by (intro exI)
next
  assume ?R
  then obtain pre post where t: "t = pre @ ''wait_until'' @ post"
    and pre: "pre = [] \<or> \<not> is_word (last pre)"
    by (elim exE conjE)
  let ?st0 = "(before None pre, ''wait_until'' @ post)"
  let ?st2 = "(before (before None pre) ''wait_until'', post)"
  from pre have "\<not> word_before ?st0"
    by (simp only: word_before_before) simp
  moreover have "word_after ?st0"
    by (simp add: word_after_def is_word_def)
  ultimately have wb: "word_before ?st0 \<noteq> word_after ?st0" by simp
  have "?st2 \<in> set (lit ''wait_until'' ?st0)" by (rule lit_member)
  with wb have "?st2 \<in> set (matches wait_until_re ?st0)"
    by (simp add: wait_until_re_def del: lit.simps)
  with t have "t = pre @ (''wait_until'' @ post) \<and> ?st2 \<in> set (matches wait_until_re ?st0)"
    by simp
  then show ?L unfolding re_search_iff by (intro exI)
qed

lemma dot_png_no_match: "\<not> re_search png_re ''.png''"
  by (simp add: re_search_def png_re_def)

lemma suffix_png_code: "suffix ''.png'' s \<longleftrightarrow> prefix ''gnp.'' (rev s)"
  by (simp add: suffix_to_prefix)

subsection \<open>Splitting a dotted name\<close>

lemma split_not_Nil: "split sep s \<noteq> []"
  by (induction s) (auto split: list.splits)

lemma last_split_no_sep: "sep \<notin> set s \<Longrightarrow> split sep s = [s]"
  by (induction s) auto

subsection \<open>The walks to the root\<close>

lemma in_property_any: "in_property x \<longleftrightarrow> list_ex is_property_function (lineage x)"
  by (induction x rule: in_property.induct)
     (auto simp: is_property_function_def split: node_kind.splits)

lemma in_frameobject_any: "in_frameobject x \<longleftrightarrow> list_ex is_frameobject_class (lineage x)"
  by (induction x rule: in_frameobject.induct)
     (auto simp: is_frameobject_class_def split: node_kind.splits)

lemma find_Some_ex: "find P xs = Some y \<Longrightarrow> Q y \<Longrightarrow> list_ex Q xs"
  by (induction xs) (auto split: if_splits)

lemma find_None_no: "find P xs = None \<Longrightarrow> (\<And>y. Q y \<Longrightarrow> P y) \<Longrightarrow> \<not> list_ex Q xs"
  by (induction xs) (auto split: if_splits)

lemma file_exists_module:
  "kind (root node) = Module file \<Longrightarrow>
   file_exists os s node = Inr (os_path_isfile os (os_path_join os (os_path_dirname os file) s))"
  by (simp add: file_exists_def)

subsection \<open>The inference adapter and the loops\<close>

lemma infer_filter: "infer r = filter (\<lambda>d. \<not> is_YES d) (yielded r)"
  by (induction r) auto

lemma infer_not_YES: "d \<in> set (infer r) \<Longrightarrow> \<not> is_YES d"
  by (simp add: infer_filter)

lemma is_function_named_loop_when_named:
  "\<forall>d \<in> set ds. is_FunctionDef d \<longrightarrow> has_parent_name d \<Longrightarrow>
   is_function_named_loop ds nm = Inr (list_ex (\<lambda>d. is_FunctionDef d \<and> joined_name d = nm) ds)"
  by (induction ds) (auto simp: has_parent_name_def joined_name_def split: name_attr.splits)

lemma is_function_named_when_named:
  "\<forall>d \<in> set (infer (infer_gen func)). is_FunctionDef d \<longrightarrow> has_parent_name d \<Longrightarrow>
   is_function_named func nm =
     Inr (as_string func = nm \<or>
          list_ex (\<lambda>d. is_FunctionDef d \<and> joined_name d = nm) (infer (infer_gen func)))"
  by (simp add: is_function_named_def is_function_named_loop_when_named)

lemma any_function_named_when_named:
  "\<forall>d \<in> set (infer (infer_gen func)). is_FunctionDef d \<longrightarrow> has_parent_name d \<Longrightarrow>
   any_function_named func nms = Inr (list_ex (\<lambda>nm. is_function_named func nm = Inr True) nms)"
  by (induction nms) (simp_all add: is_function_named_when_named)

lemma is_callable_loop_eq:
  "is_callable_loop ds failed =
     (if list_ex callable ds then (Some True, False) else (None, failed \<and> ds = []))"
  by (induction ds arbitrary: failed) auto

lemma sum_bool_collapse:
  "(case r of Inl e \<Rightarrow> Inl e | Inr b \<Rightarrow> (if b then Inr True else Inr False)) = r"
  by (cases r) auto

lemma is_callable_eq:
  "is_callable a =
     (if infer (infer_gen a) \<noteq> [] then Inr (list_ex callable (infer (infer_gen a)))
      else (case shape a of
              CallE func \<Rightarrow> is_function_named func ''functools.partial''
            | _ \<Rightarrow> Inr False))"
  by (cases "infer (infer_gen a)")
     (auto simp: is_callable_def is_callable_loop_eq sum_bool_collapse split: expr_shape.splits)

lemma is_callable_if_candidate:
  "\<exists>d \<in> set (infer (infer_gen a)). callable d \<Longrightarrow> is_callable a = Inr True"
  by (auto simp: is_callable_eq list_ex_iff)

lemma is_callable_not_a_call:
  "\<forall>func. shape a \<noteq> CallE func \<Longrightarrow> \<forall>d \<in> set (infer (infer_gen a)). \<not> callable d \<Longrightarrow>
   is_callable a = Inr False"
  by (cases "shape a") (simp_all add: is_callable_eq list_ex_iff)

lemma unused_return_loop_eq:
  "unused_return_loop node func ds msgs =
     msgs @ replicate (length (filter in_stbt ds)) (Message E7002 node (as_string func))"
proof (induction ds arbitrary: msgs)
  case Nil
  show ?case by simp
next
  case (Cons d ds)
  show ?case
    by (simp add: Cons.IH in_stbt_def add_message_def replicate_app_Cons_same)
qed

lemma list_index_absent: "x \<notin> set xs \<Longrightarrow> list_index xs x = Inl ValueError"
  by (induction xs) auto

lemma list_index_present: "x \<in> set xs \<Longrightarrow> \<exists>i. list_index xs x = Inr i"
  by (induction xs) auto

lemma list_index_first:
  "list_index xs x = Inr i \<Longrightarrow> i < length xs \<and> xs ! i = x \<and> x \<notin> set (take i xs)"
proof (induction xs arbitrary: i)
  case Nil
  then show ?case by simp
next
  case (Cons y ys)
  show ?case
  proof (cases "y = x")
    case True
    with Cons.prems show ?thesis by simp
  next
    case False
    with Cons.prems obtain j where j: "list_index ys x = Inr j" "i = Suc j"
      by (auto split: sum.splits)
    from Cons.IH [OF j(1)] j(2) False show ?thesis by simp
  qed
qed

lemma positional_args_not_keyword:
  "positional_args args =
     filter (\<lambda>a. case shape a of KeywordE _ \<Rightarrow> False | _ \<Rightarrow> True) args"
  unfolding positional_args_def is_Keyword_def
  by (rule filter_cong) (simp_all split: expr_shape.splits)

lemma keyword_nodes_names:
  "List.map_filter (\<lambda>a. case shape a of KeywordE k \<Rightarrow> Some k | _ \<Rightarrow> None) args =
     concat (map (\<lambda>a. case shape a of KeywordE k \<Rightarrow> [k] | _ \<Rightarrow> []) args)"
  by (induction args) (simp_all add: List.map_filter_simps split: expr_shape.splits)

lemma keyword_names_cases:
  "keyword_names args keywords =
     (case keywords of
        Some None \<Rightarrow> []
      | Some (Some ks) \<Rightarrow> ks
      | None \<Rightarrow> concat (map (\<lambda>a. case shape a of KeywordE k \<Rightarrow> [k] | _ \<Rightarrow> []) args))"
  unfolding keyword_names_def
  by (simp add: keyword_nodes_names split: option.splits)

lemma frame_loop_step:
  "frame_loop node args keywords (d # ds) msgs =
     frame_loop node args keywords ds
       (if frame_missing args keywords d
        then msgs @ [Message E7004 node (node_as_string node)] else msgs)"
proof (cases "''frame'' \<in> set (argnames d)")
  case True
  then have "\<exists>i. list_index (argnames d) ''frame'' = Inr i"
    by (rule list_index_present)
  then obtain i where i: "list_index (argnames d) ''frame'' = Inr i"
    by (elim exE)
  from True i show ?thesis
    by (simp add: frame_missing_def add_message_def positional_args_not_keyword
        keyword_names_cases)
next
  case False
  then have a: "list_index (argnames d) ''frame'' = Inl ValueError"
    by (rule list_index_absent)
  from False a show ?thesis
    by (simp add: frame_missing_def)
qed

lemma frame_loop_eq:
  "frame_loop node args keywords ds msgs =
     (msgs @ replicate (length (filter (frame_missing args keywords) ds))
                (Message E7004 node (node_as_string node)), None)"
proof (induction ds arbitrary: msgs)
  case Nil
  show ?case by simp
next
  case (Cons d ds)
  show ?case
    unfolding frame_loop_step Cons.IH by (simp add: replicate_app_Cons_same)
qed

lemma check_unused_return_eq:
  "check_unused_return node func msgs =
     msgs @ replicate
       (if re_search unused_return_re (as_string func) \<and> parent_is_Expr node
        then length (filter in_stbt (infer (infer_gen func))) else 0)
       (Message E7002 node (as_string func))"
  by (simp add: check_unused_return_def unused_return_loop_eq)

lemma check_wait_until_eq:
  "check_wait_until node func args msgs =
     (case wait_until_outcome node func args of
        Inl e \<Rightarrow> (msgs, Some e)
      | Inr b \<Rightarrow> (msgs @ b, None))"
  by (cases args)
     (simp_all add: check_wait_until_def wait_until_outcome_def getitem_def add_message_def
        split: sum.splits)

lemma check_frame_eq:
  "check_frame node func args keywords msgs =
     (msgs @ replicate
       (if in_frameobject (Some node) \<and> in_property (Some node)
        then length (filter (frame_missing args keywords) (infer (infer_gen func))) else 0)
       (Message E7004 node (node_as_string node)), None)"
  by (simp add: check_frame_def frame_loop_eq)

lemma visit_callfunc_eq:
  assumes "kind node = Call func args keywords"
  shows "visit_callfunc node msgs =
     (case wait_until_outcome node func args of
        Inl e \<Rightarrow>
          (msgs @ replicate
             (if re_search unused_return_re (as_string func) \<and> parent_is_Expr node
              then length (filter in_stbt (infer (infer_gen func))) else 0)
             (Message E7002 node (as_string func)), Some e)
      | Inr b \<Rightarrow>
          (msgs @ replicate
             (if re_search unused_return_re (as_string func) \<and> parent_is_Expr node
              then length (filter in_stbt (infer (infer_gen func))) else 0)
             (Message E7002 node (as_string func)) @ b @
           replicate
             (if in_frameobject (Some node) \<and> in_property (Some node)
              then length (filter (frame_missing args keywords) (infer (infer_gen func))) else 0)
             (Message E7004 node (node_as_string node)), None))"
  using assms
  by (simp add: visit_callfunc_def check_unused_return_eq check_wait_until_eq check_frame_eq
      split: sum.splits)

lemma wait_until_outcome_messages:
  "wait_until_outcome node func args = Inr b \<Longrightarrow>
   length b \<le> 1 \<and> (\<forall>m \<in> set b. msgid m = E7003)"
  by (auto simp: wait_until_outcome_def split: list.splits if_splits sum.splits)

subsection \<open>The messages of a visit\<close>

lemma filter_length_pos: "0 < length (filter P xs) \<longleftrightarrow> (\<exists>x \<in> set xs. P x)"
  by (induction xs) auto

lemma count_id_append [simp]: "count_id m (xs @ ys) = count_id m xs + count_id m ys"
  by (simp add: count_id_def)

lemma count_id_replicate [simp]:
  "count_id m (replicate n (Message m' nd a)) = (if m = m' then n else 0)"
  by (simp add: count_id_def)

lemma count_id_Nil [simp]: "count_id m [] = 0"
  by (simp add: count_id_def)

lemma count_id_single [simp]: "count_id m [Message m' nd a] = (if m = m' then 1 else 0)"
  by (simp add: count_id_def)

lemma wait_until_messages_eq:
  "wait_until_messages node func args =
     (case args of
        [] \<Rightarrow> []
      | arg # _ \<Rightarrow>
          (if re_search wait_until_re (as_string func) \<and> is_callable arg = Inr False
           then [Message E7003 node (as_string arg)] else []))"
  by (auto simp: wait_until_messages_def wait_until_outcome_def split: list.splits sum.splits)

lemma wait_until_outcome_returns:
  "returns (wait_until_outcome node func args) \<longleftrightarrow>
     (case args of
        [] \<Rightarrow> True
      | arg # _ \<Rightarrow> re_search wait_until_re (as_string func) \<longrightarrow> returns (is_callable arg))"
  by (auto simp: returns_def wait_until_outcome_def split: list.splits sum.splits)

lemma visit_callfunc_fst:
  assumes "kind node = Call func args keywords"
  shows "fst (visit_callfunc node msgs) =
     msgs @ replicate
         (if re_search unused_return_re (as_string func) \<and> parent_is_Expr node
          then length (filter in_stbt (infer (infer_gen func))) else 0)
         (Message E7002 node (as_string func)) @
       wait_until_messages node func args @
       replicate
         (if returns (wait_until_outcome node func args) \<and>
             in_frameobject (Some node) \<and> in_property (Some node)
          then length (filter (frame_missing args keywords) (infer (infer_gen func))) else 0)
         (Message E7004 node (node_as_string node))"
  by (cases "wait_until_outcome node func args")
     (simp_all add: visit_callfunc_eq [OF assms] wait_until_messages_def returns_def)

lemma visit_callfunc_snd:
  assumes "kind node = Call func args keywords"
  shows "snd (visit_callfunc node msgs) =
     (case wait_until_outcome node func args of Inl e \<Rightarrow> Some e | Inr _ \<Rightarrow> None)"
  by (cases "wait_until_outcome node func args")
     (simp_all add: visit_callfunc_eq [OF assms])

lemma visit_callfunc_returns:
  assumes "kind node = Call func args keywords"
  shows "snd (visit_callfunc node msgs) = None \<longleftrightarrow> returns (wait_until_outcome node func args)"
  by (cases "wait_until_outcome node func args")
     (simp_all add: visit_callfunc_snd [OF assms] returns_def)

lemma wait_until_messages_ids:
  "length (wait_until_messages node func args) \<le> 1"
  "\<forall>m \<in> set (wait_until_messages node func args). msgid m = E7003"
  by (auto simp: wait_until_messages_eq split: list.splits)

lemma visit_callfunc_new:
  assumes "kind node = Call func args keywords"
  obtains n2 b n4 where
    "fst (visit_callfunc node msgs) =
       msgs @ replicate n2 (Message E7002 node (as_string func)) @ b @
         replicate n4 (Message E7004 node (node_as_string node))"
    "n2 = (if re_search unused_return_re (as_string func) \<and> parent_is_Expr node
           then length (filter in_stbt (infer (infer_gen func))) else 0)"
    "b = wait_until_messages node func args"
    "n4 = (if returns (wait_until_outcome node func args) \<and>
              in_frameobject (Some node) \<and> in_property (Some node)
           then length (filter (frame_missing args keywords) (infer (infer_gen func))) else 0)"
  using visit_callfunc_fst [OF assms, of msgs] by simp

lemma visit_const_fst:
  assumes "kind node = Const (PyStr s)"
  shows "fst (visit_const os node msgs) =
     (if re_search png_re s \<and> CHR 0x0A \<notin> set s \<and> \<not> is_calculated_value node \<and>
         \<not> is_pattern_value s \<and> \<not> is_whitelisted_name s \<and>
         in_whitelisted_functions node = Inr False \<and> file_exists os s node = Inr False
      then msgs @ [Message E7001 node s] else msgs)"
  using assms
  by (auto simp: visit_const_def add_message_def split: sum.splits)

lemma visit_const_snd:
  assumes "kind node = Const (PyStr s)"
    and "returns (in_whitelisted_functions node)" and "returns (file_exists os s node)"
  shows "snd (visit_const os node msgs) = None"
  using assms
  by (auto simp: visit_const_def returns_def split: sum.splits)

lemma visit_const_at_most_one:
  "\<exists>new. fst (visit_const os node msgs) = msgs @ new \<and> length new \<le> 1 \<and>
     (\<forall>m. count_id m new \<le> 1)"
proof (cases "fst (visit_const os node msgs) = msgs")
  case True
  then have "fst (visit_const os node msgs) = msgs @ [] \<and> length ([] :: message list) \<le> 1 \<and>
      (\<forall>m. count_id m [] \<le> 1)"
    by simp
  then show ?thesis by (rule exI)
next
  case False
  then obtain s where "fst (visit_const os node msgs) = msgs @ [Message E7001 node s]"
    by (auto simp: visit_const_def add_message_def
        split: node_kind.splits pyvalue.splits if_splits sum.splits)
  then have "fst (visit_const os node msgs) = msgs @ [Message E7001 node s] \<and>
      length [Message E7001 node s] \<le> 1 \<and> (\<forall>m. count_id m [Message E7001 node s] \<le> 1)"
    by simp
  then show ?thesis by (rule exI)
qed

subsection \<open>Unfolding the visits\<close>

lemmas visit_callfunc_defs =
  visit_callfunc_def check_unused_return_def check_wait_until_def check_frame_def
  parent_is_Expr_def getitem_def add_message_def is_callable_def is_function_named_def
  positional_args_def keyword_names_def is_Keyword_def List.map_filter_def

lemmas visit_const_defs =
  visit_const_def is_calculated_value_def is_pattern_value_def is_whitelisted_name_def
  in_whitelisted_functions_def is_function_named_def whitelisted_functions_def file_exists_def
  add_message_def

lemmas re_eval_defs =
  re_search_def unused_return_re_def wait_until_re_def word_before_def word_after_def is_word_def

subsection \<open>The claims\<close>

text \<open>
  C10. A string literal whose value is exactly \<^verbatim>\<open>.png\<close> does not match the
  pattern \<^verbatim>\<open>.+\.png$\<close>, which wants a character before the suffix, and so the
  visit of such a literal adds no message and raises nothing, whatever its parents, the
  file system and the messages so far.
\<close>

theorem dot_png_alone_never_reported:
  "\<not> re_search png_re ''.png'' \<and>
   visit_const os (Node (Const (PyStr ''.png'')) p s) msgs = (msgs, None)"
  by (simp add: visit_const_def re_search_def png_re_def)

text \<open>
  C1, as amended. For a literal whose value is the string \<open>s\<close>, the visit adds
  exactly the message E7001 with \<open>s\<close> as its argument if \<open>s\<close> ends in
  \<^verbatim>\<open>.png\<close> with at least one character before it, has no line feed, is not
  calculated, not a pattern, not a whitelisted name,
  \<^verbatim>\<open>_in_whitelisted_functions\<close> answers false and \<^verbatim>\<open>_file_exists\<close>
  answers false; otherwise it adds nothing. In a tree whose root is a module with file
  \<open>file\<close>, \<^verbatim>\<open>_file_exists\<close> tells whether
  \<^verbatim>\<open>join(dirname(file), s)\<close> is a file, and the visit raises nothing if
  \<^verbatim>\<open>_in_whitelisted_functions\<close> does not.
\<close>

theorem visit_const_missing_image:
  assumes "kind node = Const (PyStr s)"
  shows "fst (visit_const os node msgs) =
           (if 4 < length s \<and> suffix ''.png'' s \<and> CHR 0x0A \<notin> set s \<and>
               \<not> is_calculated_value node \<and> \<not> is_pattern_value s \<and>
               \<not> is_whitelisted_name s \<and> in_whitelisted_functions node = Inr False \<and>
               file_exists os s node = Inr False
            then msgs @ [Message E7001 node s] else msgs) \<and>
         (kind (root node) = Module file \<longrightarrow>
            file_exists os s node =
              Inr (os_path_isfile os (os_path_join os (os_path_dirname os file) s))) \<and>
         (kind (root node) = Module file \<and> returns (in_whitelisted_functions node) \<longrightarrow>
            snd (visit_const os node msgs) = None)"
proof (intro conjI impI)
  show "fst (visit_const os node msgs) =
           (if 4 < length s \<and> suffix ''.png'' s \<and> CHR 0x0A \<notin> set s \<and>
               \<not> is_calculated_value node \<and> \<not> is_pattern_value s \<and>
               \<not> is_whitelisted_name s \<and> in_whitelisted_functions node = Inr False \<and>
               file_exists os s node = Inr False
            then msgs @ [Message E7001 node s] else msgs)"
  proof (cases "CHR 0x0A \<in> set s")
    case True
    then show ?thesis by (simp add: visit_const_fst [OF assms])
  next
    case False
    then have "re_search png_re s \<longleftrightarrow> 4 < length s \<and> suffix ''.png'' s"
      by (rule png_re_no_newline)
    with False show ?thesis by (simp add: visit_const_fst [OF assms])
  qed
next
  assume "kind (root node) = Module file"
  then show "file_exists os s node =
      Inr (os_path_isfile os (os_path_join os (os_path_dirname os file) s))"
    by (rule file_exists_module)
next
  assume a: "kind (root node) = Module file \<and> returns (in_whitelisted_functions node)"
  then have "returns (file_exists os s node)"
    by (simp add: file_exists_module returns_def)
  with a show "snd (visit_const os node msgs) = None"
    by (simp add: visit_const_snd [OF assms])
qed

text \<open>
  Witness: \<^verbatim>\<open>assert stbt.match("images/back.png")\<close> is reported, the file being
  absent, and \<^verbatim>\<open>assert stbt.match("images/menu.png")\<close> is not.
\<close>

theorem visit_const_missing_image_witness:
  "visit_const ex_os (ex_image_const ''images/back.png'') [] =
     ([Message E7001 (ex_image_const ''images/back.png'') ''images/back.png''], None) \<and>
   visit_const ex_os (ex_image_const ''images/menu.png'') [] = ([], None)"
proof -
  have k: "kind (ex_image_const s) = Const (PyStr s)" for s
    by (simp add: ex_image_const_def)
  have r: "kind (root (ex_image_const s)) = Module ''tests/test.py''" for s
    by (simp add: ex_module_def ex_os_def ex_stbt_match_def ex_match_func_def ex_image_arg_def
        ex_assert_match_def ex_image_const_def)
  have w: "in_whitelisted_functions (ex_image_const s) = Inr False" for s
    by (simp add: ex_module_def ex_os_def ex_stbt_match_def ex_match_func_def ex_image_arg_def
        ex_assert_match_def ex_image_const_def in_whitelisted_functions_def
        whitelisted_functions_def
        is_function_named_def)
  have c: "\<not> is_calculated_value (ex_image_const s)" for s
    by (simp add: ex_module_def ex_os_def ex_stbt_match_def ex_match_func_def ex_image_arg_def
        ex_assert_match_def ex_image_const_def is_calculated_value_def)
  have f1: "file_exists ex_os ''images/back.png'' (ex_image_const ''images/back.png'') = Inr False"
    and f2: "file_exists ex_os ''images/menu.png'' (ex_image_const ''images/menu.png'') = Inr True"
    by (simp_all add: ex_module_def ex_os_def ex_stbt_match_def ex_match_func_def
        ex_image_arg_def ex_assert_match_def ex_image_const_def file_exists_def)
  have s1: "4 < length ''images/back.png'' \<and> suffix ''.png'' ''images/back.png'' \<and>
      CHR 0x0A \<notin> set ''images/back.png'' \<and> \<not> is_pattern_value ''images/back.png'' \<and>
      \<not> is_whitelisted_name ''images/back.png''"
    by (simp add: suffix_png_code is_pattern_value_def star_re_iff is_whitelisted_name_def)
  note t1 = visit_const_missing_image [OF k, of ex_os "''images/back.png''" "[]" "''tests/test.py''"]
  note t2 = visit_const_missing_image [OF k, of ex_os "''images/menu.png''" "[]" "''tests/test.py''"]
  from t1 have a1: "fst (visit_const ex_os (ex_image_const ''images/back.png'') []) =
      [Message E7001 (ex_image_const ''images/back.png'') ''images/back.png'']"
    using s1 by (simp add: w c f1)
  from t1 have b1: "snd (visit_const ex_os (ex_image_const ''images/back.png'') []) = None"
    by (simp add: r w returns_def)
  from t2 have a2: "fst (visit_const ex_os (ex_image_const ''images/menu.png'') []) = []"
    by (simp add: f2)
  from t2 have b2: "snd (visit_const ex_os (ex_image_const ''images/menu.png'') []) = None"
    by (simp add: r w returns_def)
  from a1 b1 a2 b2 show ?thesis by (simp add: prod_eq_iff)
qed

text \<open>
  C1 as stated fails: the literal \<^verbatim>\<open>".png"\<close> in
  \<^verbatim>\<open>filename.endswith(".png")\<close> has the suffix \<^verbatim>\<open>.png\<close>, has no
  line feed, is not calculated, not a pattern, not whitelisted, not an argument of a
  whitelisted function, and no such file exists; yet the visit adds no message.
\<close>

theorem visit_const_suffix_counterexample:
  "kind ex_dot_png = Const (PyStr ''.png'') \<and> suffix ''.png'' ''.png'' \<and>
   CHR 0x0A \<notin> set ''.png'' \<and> \<not> is_calculated_value ex_dot_png \<and>
   \<not> is_pattern_value ''.png'' \<and> \<not> is_whitelisted_name ''.png'' \<and>
   in_whitelisted_functions ex_dot_png = Inr False \<and>
   file_exists ex_os ''.png'' ex_dot_png = Inr False \<and>
   visit_const ex_os ex_dot_png [] = ([], None)"
  by (simp add: ex_module_def ex_os_def ex_image_arg_def ex_endswith_call_def ex_dot_png_def
      visit_const_defs star_re_iff dot_png_no_match)

text \<open>
  C6, as amended. \<^verbatim>\<open>_in_property\<close> walks from the node to the root and is
  true if and only if some function definition on the way, the node itself included,
  has the decorator \<^verbatim>\<open>__builtin__.property\<close>. So it is true whenever the
  innermost enclosing function is a property, and false when no function encloses the
  node.
\<close>

theorem in_property_any_enclosing_function:
  "(in_property (Some n) \<longleftrightarrow> list_ex is_property_function (lineage (Some n))) \<and>
   (innermost_function_is_property (Some n) \<longrightarrow> in_property (Some n)) \<and>
   (find is_FunctionDef_node (lineage (Some n)) = None \<longrightarrow> \<not> in_property (Some n))"
proof (intro conjI impI)
  show "in_property (Some n) \<longleftrightarrow> list_ex is_property_function (lineage (Some n))"
    by (rule in_property_any)
next
  assume "innermost_function_is_property (Some n)"
  then show "in_property (Some n)"
    unfolding in_property_any innermost_function_is_property_def
    by (auto split: option.splits intro: find_Some_ex)
next
  assume "find is_FunctionDef_node (lineage (Some n)) = None"
  then have "\<not> list_ex is_property_function (lineage (Some n))"
    by (rule find_None_no)
       (auto simp: is_property_function_def is_FunctionDef_node_def split: node_kind.splits)
  then show "\<not> in_property (Some n)"
    using in_property_any by blast
qed

text \<open>Witness: the property \<^verbatim>\<open>is_visible\<close> itself, and its class.\<close>

theorem in_property_any_enclosing_function_witness:
  "innermost_function_is_property (Some ex_property) \<and> in_property (Some ex_property) \<and>
   find is_FunctionDef_node (lineage (Some ex_class)) = None \<and> \<not> in_property (Some ex_class)"
  using in_property_any_enclosing_function [of ex_property]
    in_property_any_enclosing_function [of ex_class]
  by (simp add: ex_module_def ex_class_def ex_property_def innermost_function_is_property_def
      is_FunctionDef_node_def is_property_function_def)

text \<open>
  C6 as stated fails: for a statement of the helper function, which is not a property
  and is defined inside the property, the code answers true, while the innermost
  enclosing function is not a property.
\<close>

theorem in_property_innermost_counterexample:
  "in_property (Some ex_in_helper) \<and> \<not> innermost_function_is_property (Some ex_in_helper)"
  by (simp add: ex_module_def ex_class_def ex_property_def ex_helper_def ex_in_helper_def
      innermost_function_is_property_def
      is_FunctionDef_node_def is_property_function_def)

text \<open>
  C7, as amended. \<^verbatim>\<open>_in_frameobject\<close> walks from the node to the root and is
  true if and only if some class definition on the way, the node itself included, has
  \<^verbatim>\<open>stbt.FrameObject\<close> among the qualified names of its ancestors. So it is
  true whenever the innermost enclosing class has, and false when no class encloses the
  node.
\<close>

theorem in_frameobject_any_enclosing_class:
  "(in_frameobject (Some n) \<longleftrightarrow> list_ex is_frameobject_class (lineage (Some n))) \<and>
   (innermost_class_is_frameobject (Some n) \<longrightarrow> in_frameobject (Some n)) \<and>
   (find is_ClassDef_node (lineage (Some n)) = None \<longrightarrow> \<not> in_frameobject (Some n))"
proof (intro conjI impI)
  show "in_frameobject (Some n) \<longleftrightarrow> list_ex is_frameobject_class (lineage (Some n))"
    by (rule in_frameobject_any)
next
  assume "innermost_class_is_frameobject (Some n)"
  then show "in_frameobject (Some n)"
    unfolding in_frameobject_any innermost_class_is_frameobject_def
    by (auto split: option.splits intro: find_Some_ex)
next
  assume "find is_ClassDef_node (lineage (Some n)) = None"
  then have "\<not> list_ex is_frameobject_class (lineage (Some n))"
    by (rule find_None_no)
       (auto simp: is_frameobject_class_def is_ClassDef_node_def split: node_kind.splits)
  then show "\<not> in_frameobject (Some n)"
    using in_frameobject_any by blast
qed

text \<open>Witness: the property of the class \<^verbatim>\<open>Page\<close>, and the module.\<close>

theorem in_frameobject_any_enclosing_class_witness:
  "innermost_class_is_frameobject (Some ex_property) \<and> in_frameobject (Some ex_property) \<and>
   find is_ClassDef_node (lineage (Some ex_module)) = None \<and> \<not> in_frameobject (Some ex_module)"
  using in_frameobject_any_enclosing_class [of ex_property]
    in_frameobject_any_enclosing_class [of ex_module]
  by (simp add: ex_module_def ex_class_def ex_property_def innermost_class_is_frameobject_def
      is_ClassDef_node_def is_frameobject_class_def)

text \<open>
  C7 as stated fails: for a statement of the plain class defined inside the helper of
  the property of \<^verbatim>\<open>Page\<close>, the code answers true, while the innermost
  enclosing class does not derive from \<^verbatim>\<open>stbt.FrameObject\<close>.
\<close>

theorem in_frameobject_innermost_counterexample:
  "in_frameobject (Some ex_in_inner_class) \<and>
   \<not> innermost_class_is_frameobject (Some ex_in_inner_class)"
  by (simp add: ex_module_def ex_class_def ex_property_def ex_helper_def ex_inner_class_def
      ex_in_inner_class_def innermost_class_is_frameobject_def
      is_ClassDef_node_def is_frameobject_class_def)

text \<open>
  C2, as amended. Whether or not it raises, a visit of a call adds no E7001, at most
  one E7003, and one E7002 for each inferred callee rooted in \<^verbatim>\<open>stbt\<close> or
  \<^verbatim>\<open>_stbt.core\<close> (when the callee's text matches and the parent is an
  expression statement); a visit that raises nothing adds one E7004 for each inferred
  callee that is a function with a parameter \<^verbatim>\<open>frame\<close> the call does not
  supply (inside a property of a \<^verbatim>\<open>FrameObject\<close>). Neither loop stops at the
  first such callee. So each id occurs at most once when inference yields at most one
  callee. A visit of a constant adds at most one message.
\<close>

theorem one_message_per_candidate:
  "(kind node = Call func args keywords \<longrightarrow>
      (\<exists>new. fst (visit_callfunc node msgs) = msgs @ new \<and>
         count_id E7001 new = 0 \<and>
         count_id E7002 new =
           (if re_search unused_return_re (as_string func) \<and> parent_is_Expr node
            then length (filter in_stbt (infer (infer_gen func))) else 0) \<and>
         count_id E7003 new \<le> 1 \<and>
         (snd (visit_callfunc node msgs) = None \<longrightarrow>
            count_id E7004 new =
              (if in_frameobject (Some node) \<and> in_property (Some node)
               then length (filter (frame_missing args keywords) (infer (infer_gen func)))
               else 0)) \<and>
         count_id E7004 new \<le> length (infer (infer_gen func)) \<and>
         (length (infer (infer_gen func)) \<le> 1 \<longrightarrow> (\<forall>m. count_id m new \<le> 1)))) \<and>
   (\<exists>new. fst (visit_const os node msgs) = msgs @ new \<and> length new \<le> 1 \<and>
      (\<forall>m. count_id m new \<le> 1))"
proof (intro conjI impI)
  assume k: "kind node = Call func args keywords"
  define n2 where "n2 =
    (if re_search unused_return_re (as_string func) \<and> parent_is_Expr node
     then length (filter in_stbt (infer (infer_gen func))) else 0)"
  define b where "b = wait_until_messages node func args"
  define n4 where "n4 =
    (if returns (wait_until_outcome node func args) \<and>
        in_frameobject (Some node) \<and> in_property (Some node)
     then length (filter (frame_missing args keywords) (infer (infer_gen func))) else 0)"
  define new where "new =
    replicate n2 (Message E7002 node (as_string func)) @ b @
    replicate n4 (Message E7004 node (node_as_string node))"
  have v: "fst (visit_callfunc node msgs) = msgs @ new"
    unfolding new_def n2_def b_def n4_def using k by (rule visit_callfunc_fst)
  have lb: "length b \<le> 1" and ib: "\<forall>m \<in> set b. msgid m = E7003"
    unfolding b_def by (rule wait_until_messages_ids)+
  have cb: "count_id m b = (if m = E7003 then length b else 0)" for m
    using ib by (auto simp: count_id_def filter_empty_conv)
  have c: "count_id m new =
      (if m = E7002 then n2 else if m = E7003 then length b else if m = E7004 then n4 else 0)" for m
    by (cases m) (simp_all add: new_def cb)
  have le2: "n2 \<le> length (infer (infer_gen func))" and le4: "n4 \<le> length (infer (infer_gen func))"
    by (simp_all add: n2_def n4_def)
  have ret: "n4 = (if in_frameobject (Some node) \<and> in_property (Some node)
               then length (filter (frame_missing args keywords) (infer (infer_gen func)))
               else 0)"
    if "snd (visit_callfunc node msgs) = None"
    using that by (simp add: n4_def visit_callfunc_returns [OF k])
  have small: "\<forall>m. count_id m new \<le> 1" if "length (infer (infer_gen func)) \<le> 1"
    using that le2 le4 lb by (simp add: c)
  have "fst (visit_callfunc node msgs) = msgs @ new \<and>
         count_id E7001 new = 0 \<and> count_id E7002 new = n2 \<and> count_id E7003 new \<le> 1 \<and>
         (snd (visit_callfunc node msgs) = None \<longrightarrow>
            count_id E7004 new =
              (if in_frameobject (Some node) \<and> in_property (Some node)
               then length (filter (frame_missing args keywords) (infer (infer_gen func)))
               else 0)) \<and>
         count_id E7004 new \<le> length (infer (infer_gen func)) \<and>
         (length (infer (infer_gen func)) \<le> 1 \<longrightarrow> (\<forall>m. count_id m new \<le> 1))"
    using v lb small ret le4 by (simp add: c)
  then show "\<exists>new. fst (visit_callfunc node msgs) = msgs @ new \<and>
         count_id E7001 new = 0 \<and>
         count_id E7002 new =
           (if re_search unused_return_re (as_string func) \<and> parent_is_Expr node
            then length (filter in_stbt (infer (infer_gen func))) else 0) \<and>
         count_id E7003 new \<le> 1 \<and>
         (snd (visit_callfunc node msgs) = None \<longrightarrow>
            count_id E7004 new =
              (if in_frameobject (Some node) \<and> in_property (Some node)
               then length (filter (frame_missing args keywords) (infer (infer_gen func)))
               else 0)) \<and>
         count_id E7004 new \<le> length (infer (infer_gen func)) \<and>
         (length (infer (infer_gen func)) \<le> 1 \<longrightarrow> (\<forall>m. count_id m new \<le> 1))"
    unfolding n2_def by (rule exI)
next
  show "\<exists>new. fst (visit_const os node msgs) = msgs @ new \<and> length new \<le> 1 \<and>
      (\<forall>m. count_id m new \<le> 1)"
    by (rule visit_const_at_most_one)
qed

text \<open>
  Witness: the statement \<^verbatim>\<open>stbt.match("image.png")\<close>, whose callee has one
  candidate; the same statement with a callee of two candidates, inside a property; and
  the literal \<^verbatim>\<open>"images/back.png"\<close>.
\<close>

theorem one_message_per_candidate_witness:
  "(\<exists>new. fst (visit_callfunc ex_match_statement []) = new \<and> (\<forall>m. count_id m new \<le> 1)) \<and>
   (\<exists>new. fst (visit_callfunc ex_ambiguous_call []) = new \<and>
      snd (visit_callfunc ex_ambiguous_call []) = None \<and>
      count_id E7002 new = 2 \<and> count_id E7004 new = 2) \<and>
   (\<exists>new. fst (visit_const ex_os (ex_image_const ''images/back.png'') []) = new \<and>
      length new \<le> 1)"
proof -
  have k1: "kind ex_match_statement = Call ex_match_func [ex_literal_arg] (Some None)"
    and k2: "kind ex_ambiguous_call = Call ex_ambiguous_match_func [ex_literal_arg] (Some None)"
    by (simp_all add: ex_match_statement_def ex_ambiguous_call_def ex_call_def)
  have i1: "length (infer (infer_gen ex_match_func)) \<le> 1"
    by (simp add: ex_module_def ex_class_def ex_property_def ex_os_def ex_stbt_match_def
        ex_match_func_def ex_image_arg_def ex_assert_match_def ex_image_const_def
        ex_string_object_def ex_stbt_match_public_def ex_literal_arg_def
        ex_ambiguous_match_func_def ex_call_def ex_ambiguous_call_def ex_match_statement_def)
  have r2: "snd (visit_callfunc ex_ambiguous_call []) = None"
    by (simp add: ex_module_def ex_class_def ex_property_def ex_os_def ex_stbt_match_def
        ex_match_func_def ex_image_arg_def ex_assert_match_def ex_image_const_def
        ex_string_object_def ex_stbt_match_public_def ex_literal_arg_def
        ex_ambiguous_match_func_def ex_call_def ex_ambiguous_call_def ex_match_statement_def
        visit_callfunc_defs re_eval_defs)
  have e2: "re_search unused_return_re (as_string ex_ambiguous_match_func) \<and>
      parent_is_Expr ex_ambiguous_call \<and> in_frameobject (Some ex_ambiguous_call) \<and>
      in_property (Some ex_ambiguous_call) \<and>
      length (filter in_stbt (infer (infer_gen ex_ambiguous_match_func))) = 2 \<and>
      length (filter (frame_missing [ex_literal_arg] (Some None))
        (infer (infer_gen ex_ambiguous_match_func))) = 2"
    by (simp add: ex_module_def ex_class_def ex_property_def ex_os_def ex_stbt_match_def
        ex_match_func_def ex_image_arg_def ex_assert_match_def ex_image_const_def
        ex_string_object_def ex_stbt_match_public_def ex_literal_arg_def
        ex_ambiguous_match_func_def ex_call_def ex_ambiguous_call_def ex_match_statement_def
        re_eval_defs parent_is_Expr_def in_stbt_def frame_missing_def
        positional_args_def keyword_names_def is_Keyword_def)
  note t1 = one_message_per_candidate
    [of ex_match_statement ex_match_func "[ex_literal_arg]" "Some None" "[]" ex_os]
  note t2 = one_message_per_candidate
    [of ex_ambiguous_call ex_ambiguous_match_func "[ex_literal_arg]" "Some None" "[]" ex_os]
  note t3 = one_message_per_candidate
    [of "ex_image_const ''images/back.png''" ex_match_func "[]" "None" "[]" ex_os]
  from t1 k1 i1
  have 1: "\<exists>new. fst (visit_callfunc ex_match_statement []) = new \<and> (\<forall>m. count_id m new \<le> 1)"
    by auto
  from t2 k2 e2 r2
  have 2: "\<exists>new. fst (visit_callfunc ex_ambiguous_call []) = new \<and>
      snd (visit_callfunc ex_ambiguous_call []) = None \<and>
      count_id E7002 new = 2 \<and> count_id E7004 new = 2"
    by auto
  from t3
  have 3: "\<exists>new. fst (visit_const ex_os (ex_image_const ''images/back.png'') []) = new \<and>
      length new \<le> 1"
    by auto
  from 1 2 3 show ?thesis by (intro conjI)
qed

text \<open>
  C2 as stated fails: for the statement \<^verbatim>\<open>match("image.png")\<close> inside a
  property of a \<^verbatim>\<open>FrameObject\<close>, with a callee that inference resolves to
  two definitions, one visit adds two messages E7002 and two messages E7004.
\<close>

theorem two_candidates_two_messages_counterexample:
  "visit_callfunc ex_ambiguous_call [] =
     ([Message E7002 ex_ambiguous_call ''match'', Message E7002 ex_ambiguous_call ''match'',
       Message E7004 ex_ambiguous_call ''match(...)'',
       Message E7004 ex_ambiguous_call ''match(...)''], None)"
  by (simp add: ex_module_def ex_class_def ex_property_def ex_stbt_match_def
      ex_string_object_def ex_stbt_match_public_def ex_literal_arg_def
      ex_ambiguous_match_func_def ex_call_def ex_ambiguous_call_def visit_callfunc_defs
      re_eval_defs)

text \<open>
  C3, as amended. The visit of a call adds the message E7002, with the callee's text as
  argument, if and only if that text matches
  \<^verbatim>\<open>\b(is_screen_black|match|match_text|ocr|wait_until)$\<close>, the parent is an
  expression statement, and some inferred callee is rooted in \<^verbatim>\<open>stbt\<close>
  or \<^verbatim>\<open>_stbt.core\<close>; under an assert, an assignment or a return there is
  no E7002. The text matches when it ends (but for a final line feed) with one of the
  names, and the name starts the text or follows a character that is not a letter, a
  digit or an underscore.
\<close>

theorem unused_return_value_reported:
  assumes "kind node = Call func args keywords"
  shows "\<exists>new. fst (visit_callfunc node msgs) = msgs @ new \<and>
     (Message E7002 node (as_string func) \<in> set new \<longleftrightarrow>
        re_search unused_return_re (as_string func) \<and> parent_is_Expr node \<and>
        (\<exists>d \<in> set (infer (infer_gen func)).
           root_name d = ''stbt'' \<or> root_name d = ''_stbt.core'')) \<and>
     (\<forall>m \<in> set new. msgid m = E7002 \<longrightarrow> m = Message E7002 node (as_string func)) \<and>
     (\<not> parent_is_Expr node \<longrightarrow> count_id E7002 new = 0) \<and>
     (re_search unused_return_re (as_string func) \<longleftrightarrow>
        (\<exists>pre nm post. as_string func = pre @ nm @ post \<and> nm \<in> set return_value_names \<and>
           (post = [] \<or> post = [CHR 0x0A]) \<and> (pre = [] \<or> \<not> is_word (last pre))))"
proof -
  from assms obtain n2 b n4 where
    v: "fst (visit_callfunc node msgs) =
       msgs @ replicate n2 (Message E7002 node (as_string func)) @ b @
         replicate n4 (Message E7004 node (node_as_string node))" and
    n2: "n2 = (if re_search unused_return_re (as_string func) \<and> parent_is_Expr node
           then length (filter in_stbt (infer (infer_gen func))) else 0)" and
    b: "b = wait_until_messages node func args"
    by (rule visit_callfunc_new)
  let ?new = "replicate n2 (Message E7002 node (as_string func)) @ b @
            replicate n4 (Message E7004 node (node_as_string node))"
  have bs: "\<forall>m \<in> set b. msgid m = E7003"
    unfolding b by (rule wait_until_messages_ids)
  have pos: "0 < n2 \<longleftrightarrow> re_search unused_return_re (as_string func) \<and> parent_is_Expr node \<and>
        (\<exists>d \<in> set (infer (infer_gen func)).
           root_name d = ''stbt'' \<or> root_name d = ''_stbt.core'')"
  proof -
    have "0 < n2 \<longleftrightarrow> re_search unused_return_re (as_string func) \<and> parent_is_Expr node \<and>
        (\<exists>d \<in> set (infer (infer_gen func)). in_stbt d)"
      by (auto simp: n2 filter_empty_conv)
    then show ?thesis unfolding in_stbt_def .
  qed
  have nb: "Message E7002 node (as_string func) \<notin> set b"
    using bs by auto
  have cb: "count_id E7002 b = 0"
    using bs by (simp add: count_id_def filter_empty_conv)
  have 1: "Message E7002 node (as_string func) \<in> set ?new \<longleftrightarrow>
        re_search unused_return_re (as_string func) \<and> parent_is_Expr node \<and>
        (\<exists>d \<in> set (infer (infer_gen func)).
           root_name d = ''stbt'' \<or> root_name d = ''_stbt.core'')"
    unfolding pos [symmetric] using nb by simp
  have 2: "\<forall>m \<in> set ?new. msgid m = E7002 \<longrightarrow> m = Message E7002 node (as_string func)"
    using bs by (simp add: ball_Un)
  have 3: "\<not> parent_is_Expr node \<longrightarrow> count_id E7002 ?new = 0"
    using cb by (simp add: n2)
  show ?thesis
    by (rule exI [of _ ?new]) (intro conjI v 1 2 3 unused_return_re_iff)
qed

text \<open>
  Witness: \<^verbatim>\<open>stbt.match("image.png")\<close> as a statement is reported, and under
  an assert it is not.
\<close>

theorem unused_return_value_reported_witness:
  "(\<exists>new. fst (visit_callfunc ex_match_statement []) = new \<and>
      Message E7002 ex_match_statement ''stbt.match'' \<in> set new) \<and>
   (\<exists>new. fst (visit_callfunc ex_match_asserted []) = new \<and> count_id E7002 new = 0)"
proof -
  have k1: "kind ex_match_statement = Call ex_match_func [ex_literal_arg] (Some None)"
    and k2: "kind ex_match_asserted = Call ex_match_func [ex_literal_arg] (Some None)"
    by (simp_all add: ex_match_statement_def ex_match_asserted_def ex_call_def)
  have e1: "re_search unused_return_re (as_string ex_match_func) \<and>
      parent_is_Expr ex_match_statement \<and>
      (\<exists>d \<in> set (infer (infer_gen ex_match_func)).
           root_name d = ''stbt'' \<or> root_name d = ''_stbt.core'')"
    and e2: "\<not> parent_is_Expr ex_match_asserted"
    and e3: "as_string ex_match_func = ''stbt.match''"
    by (simp_all add: ex_module_def ex_stbt_match_def ex_match_func_def ex_string_object_def
        ex_literal_arg_def ex_call_def ex_match_statement_def ex_match_asserted_def re_eval_defs
        parent_is_Expr_def)
  from unused_return_value_reported [OF k1, of "[]"]
  obtain new1 where
    v1: "fst (visit_callfunc ex_match_statement []) = [] @ new1" and
    m1: "Message E7002 ex_match_statement (as_string ex_match_func) \<in> set new1 \<longleftrightarrow>
        re_search unused_return_re (as_string ex_match_func) \<and>
        parent_is_Expr ex_match_statement \<and>
        (\<exists>d \<in> set (infer (infer_gen ex_match_func)).
           root_name d = ''stbt'' \<or> root_name d = ''_stbt.core'')"
    by (elim exE conjE)
  from m1 e1 have "Message E7002 ex_match_statement (as_string ex_match_func) \<in> set new1"
    by (rule iffD2)
  with v1 have "fst (visit_callfunc ex_match_statement []) = new1 \<and>
      Message E7002 ex_match_statement ''stbt.match'' \<in> set new1"
    unfolding e3 by simp
  then have 1: "\<exists>new. fst (visit_callfunc ex_match_statement []) = new \<and>
      Message E7002 ex_match_statement ''stbt.match'' \<in> set new"
    by (rule exI)
  from unused_return_value_reported [OF k2, of "[]"]
  obtain new2 where
    v2: "fst (visit_callfunc ex_match_asserted []) = [] @ new2" and
    c2: "\<not> parent_is_Expr ex_match_asserted \<longrightarrow> count_id E7002 new2 = 0"
    by (elim exE conjE)
  from c2 e2 have "count_id E7002 new2 = 0" by (rule mp)
  with v2 have "fst (visit_callfunc ex_match_asserted []) = new2 \<and> count_id E7002 new2 = 0"
    by simp
  then have 2: "\<exists>new. fst (visit_callfunc ex_match_asserted []) = new \<and> count_id E7002 new = 0"
    by (rule exI)
  from 1 2 show ?thesis by (rule conjI)
qed

text \<open>
  C3 as stated fails: the text \<^verbatim>\<open>stbt.wait_for_match\<close> ends with
  \<^verbatim>\<open>match\<close>, the call is an expression statement and its callee is
  rooted in \<^verbatim>\<open>_stbt.core\<close>, yet the visit adds no message: there is no
  word boundary before \<^verbatim>\<open>match\<close>.
\<close>

theorem wait_for_match_statement_counterexample:
  "kind ex_wait_for_match_statement = Call ex_wait_for_match_func [ex_literal_arg] (Some None) \<and>
   as_string ex_wait_for_match_func = ''stbt.wait_for_match'' \<and>
   suffix ''match'' (as_string ex_wait_for_match_func) \<and>
   parent_is_Expr ex_wait_for_match_statement \<and>
   list_ex (\<lambda>d. root_name d = ''_stbt.core'') (infer (infer_gen ex_wait_for_match_func)) \<and>
   visit_callfunc ex_wait_for_match_statement [] = ([], None)"
  by (simp add: ex_module_def ex_stbt_match_def ex_string_object_def ex_literal_arg_def
      ex_wait_for_match_func_def ex_call_def ex_wait_for_match_statement_def visit_callfunc_defs
      re_eval_defs suffix_to_prefix)

text \<open>
  C4. For a call whose callee's text matches \<^verbatim>\<open>\bwait_until\<close> (it contains
  \<^verbatim>\<open>wait_until\<close> at the start or after a character that is not a letter,
  a digit or an underscore) and whose \<^verbatim>\<open>args\<close> start with \<open>arg\<close>, the
  visit adds the message E7003 with the text of \<open>arg\<close>, once, if and only if
  \<^verbatim>\<open>_is_callable(arg)\<close> returns false; the visit raises exactly when
  \<^verbatim>\<open>_is_callable(arg)\<close> does, and adds no E7003 then. For an argument for
  which inference yields a callable object (a lambda, a reference to a function)
  \<^verbatim>\<open>_is_callable\<close> returns true; for an argument that is not a call and for
  which inference yields no callable object (a string or number literal) it returns
  false.
\<close>

theorem wait_until_argument_checked:
  assumes "kind node = Call func (arg # rest) keywords"
    and "re_search wait_until_re (as_string func)"
  shows "\<exists>new. fst (visit_callfunc node msgs) = msgs @ new \<and>
     (Message E7003 node (as_string arg) \<in> set new \<longleftrightarrow> is_callable arg = Inr False) \<and>
     count_id E7003 new = (if is_callable arg = Inr False then 1 else 0) \<and>
     (\<forall>m \<in> set new. msgid m = E7003 \<longrightarrow> m = Message E7003 node (as_string arg)) \<and>
     (snd (visit_callfunc node msgs) = None \<longleftrightarrow> returns (is_callable arg)) \<and>
     ((\<exists>d \<in> set (infer (infer_gen arg)). callable d) \<longrightarrow> is_callable arg = Inr True) \<and>
     ((\<forall>f. shape arg \<noteq> CallE f) \<and> (\<forall>d \<in> set (infer (infer_gen arg)). \<not> callable d) \<longrightarrow>
        is_callable arg = Inr False) \<and>
     (re_search wait_until_re (as_string func) \<longleftrightarrow>
        (\<exists>pre post. as_string func = pre @ ''wait_until'' @ post \<and>
           (pre = [] \<or> \<not> is_word (last pre))))"
proof -
  from assms(1) obtain n2 b n4 where
    v: "fst (visit_callfunc node msgs) =
       msgs @ replicate n2 (Message E7002 node (as_string func)) @ b @
         replicate n4 (Message E7004 node (node_as_string node))" and
    b: "b = wait_until_messages node func (arg # rest)"
    by (rule visit_callfunc_new)
  let ?new = "replicate n2 (Message E7002 node (as_string func)) @ b @
            replicate n4 (Message E7004 node (node_as_string node))"
  from b assms(2)
  have b': "b = (if is_callable arg = Inr False then [Message E7003 node (as_string arg)] else [])"
    by (simp add: wait_until_messages_eq)
  have 1: "Message E7003 node (as_string arg) \<in> set ?new \<longleftrightarrow> is_callable arg = Inr False"
    by (simp add: b')
  have 2: "count_id E7003 ?new = (if is_callable arg = Inr False then 1 else 0)"
    by (simp add: b')
  have 3: "\<forall>m \<in> set ?new. msgid m = E7003 \<longrightarrow> m = Message E7003 node (as_string arg)"
    by (simp add: b' ball_Un)
  have 4: "snd (visit_callfunc node msgs) = None \<longleftrightarrow> returns (is_callable arg)"
    using assms(2)
    by (simp add: visit_callfunc_returns [OF assms(1)] wait_until_outcome_returns)
  have 5: "(\<exists>d \<in> set (infer (infer_gen arg)). callable d) \<longrightarrow> is_callable arg = Inr True"
    using is_callable_if_candidate by (rule impI)
  have 6: "(\<forall>f. shape arg \<noteq> CallE f) \<and> (\<forall>d \<in> set (infer (infer_gen arg)). \<not> callable d) \<longrightarrow>
        is_callable arg = Inr False"
    using is_callable_not_a_call by (intro impI) (elim conjE)
  show ?thesis
    by (rule exI [of _ ?new]) (intro conjI v 1 2 3 4 5 6 wait_until_re_iff)
qed

text \<open>
  Witness: \<^verbatim>\<open>assert stbt.wait_until("image.png")\<close> gets one E7003 with the
  literal's text, \<^verbatim>\<open>assert stbt.wait_until(lambda: ...)\<close> gets none.
\<close>

theorem wait_until_argument_checked_witness:
  "(\<exists>new. visit_callfunc ex_wait_until_literal [] = (new, None) \<and>
      Message E7003 ex_wait_until_literal ''image.png'' \<in> set new \<and> count_id E7003 new = 1) \<and>
   (\<exists>new. visit_callfunc ex_wait_until_lambda [] = (new, None) \<and> count_id E7003 new = 0)"
proof -
  have k1: "kind ex_wait_until_literal = Call ex_wait_until_func (ex_literal_arg # []) (Some None)"
    and k2: "kind ex_wait_until_lambda = Call ex_wait_until_func (ex_lambda_arg # []) (Some None)"
    by (simp_all add: ex_wait_until_literal_def ex_wait_until_lambda_def ex_call_def)
  have re: "re_search wait_until_re (as_string ex_wait_until_func)"
    by (simp add: ex_module_def ex_stbt_match_def ex_string_object_def ex_lambda_object_def
        ex_literal_arg_def ex_lambda_arg_def ex_wait_until_func_def ex_call_def
        ex_wait_until_literal_def ex_wait_until_lambda_def re_eval_defs)
  have a: "(\<forall>f. shape ex_literal_arg \<noteq> CallE f) \<and>
      (\<forall>d \<in> set (infer (infer_gen ex_literal_arg)). \<not> callable d)"
    and a': "\<exists>d \<in> set (infer (infer_gen ex_lambda_arg)). callable d"
    and s: "as_string ex_literal_arg = ''image.png''"
    by (simp_all add: ex_module_def ex_stbt_match_def ex_string_object_def ex_lambda_object_def
        ex_literal_arg_def ex_lambda_arg_def ex_wait_until_func_def ex_call_def
        ex_wait_until_literal_def ex_wait_until_lambda_def)
  from wait_until_argument_checked [OF k1 re, of "[]"]
  obtain new1 where
    v1: "fst (visit_callfunc ex_wait_until_literal []) = [] @ new1" and
    m1: "Message E7003 ex_wait_until_literal (as_string ex_literal_arg) \<in> set new1 \<longleftrightarrow>
           is_callable ex_literal_arg = Inr False" and
    c1: "count_id E7003 new1 = (if is_callable ex_literal_arg = Inr False then 1 else 0)" and
    r1: "snd (visit_callfunc ex_wait_until_literal []) = None \<longleftrightarrow>
           returns (is_callable ex_literal_arg)" and
    l1: "(\<forall>f. shape ex_literal_arg \<noteq> CallE f) \<and>
           (\<forall>d \<in> set (infer (infer_gen ex_literal_arg)). \<not> callable d) \<longrightarrow>
         is_callable ex_literal_arg = Inr False"
    by (elim exE conjE)
  from l1 a have f1: "is_callable ex_literal_arg = Inr False" by (rule mp)
  with r1 have "snd (visit_callfunc ex_wait_until_literal []) = None"
    by (simp add: returns_def)
  with v1 m1 c1 f1
  have "visit_callfunc ex_wait_until_literal [] = (new1, None) \<and>
      Message E7003 ex_wait_until_literal ''image.png'' \<in> set new1 \<and> count_id E7003 new1 = 1"
    unfolding s by (simp add: prod_eq_iff)
  then have 1: "\<exists>new. visit_callfunc ex_wait_until_literal [] = (new, None) \<and>
      Message E7003 ex_wait_until_literal ''image.png'' \<in> set new \<and> count_id E7003 new = 1"
    by (rule exI)
  from wait_until_argument_checked [OF k2 re, of "[]"]
  obtain new2 where
    v2: "fst (visit_callfunc ex_wait_until_lambda []) = [] @ new2" and
    c2: "count_id E7003 new2 = (if is_callable ex_lambda_arg = Inr False then 1 else 0)" and
    r2: "snd (visit_callfunc ex_wait_until_lambda []) = None \<longleftrightarrow>
           returns (is_callable ex_lambda_arg)" and
    l2: "(\<exists>d \<in> set (infer (infer_gen ex_lambda_arg)). callable d) \<longrightarrow>
         is_callable ex_lambda_arg = Inr True"
    by (elim exE conjE)
  from l2 a' have f2: "is_callable ex_lambda_arg = Inr True" by (rule mp)
  with r2 have "snd (visit_callfunc ex_wait_until_lambda []) = None"
    by (simp add: returns_def)
  with v2 c2 f2
  have "visit_callfunc ex_wait_until_lambda [] = (new2, None) \<and> count_id E7003 new2 = 0"
    by (simp add: prod_eq_iff)
  then have 2: "\<exists>new. visit_callfunc ex_wait_until_lambda [] = (new, None) \<and>
      count_id E7003 new = 0"
    by (rule exI)
  from 1 2 show ?thesis by (rule conjI)
qed

text \<open>
  C5. Lines 84 to 99 taken alone do what the claim says and raise nothing: inside a
  property of a \<^verbatim>\<open>FrameObject\<close> they add one message E7004, with the text of
  the call, for each inferred callee that is a function with a parameter
  \<^verbatim>\<open>frame\<close> the call does not supply. So
  \<^verbatim>\<open>stbt.match("image.png")\<close> is reported; with \<^verbatim>\<open>self._frame\<close>
  as second argument or as the keyword \<^verbatim>\<open>frame\<close> it is not; and a keyword
  node among \<^verbatim>\<open>args\<close> (before astroid 1.4) does not count as positional:
  \<^verbatim>\<open>stbt.match("image.png", region=r)\<close> is reported. But the code does not do
  what the claim says for the call \<^verbatim>\<open>wait_until_match(f(key), "image.png")\<close>
  inside such a property: the callee is a function with \<^verbatim>\<open>frame\<close> at
  index 2, the call has two positional arguments and no keyword \<^verbatim>\<open>frame\<close>,
  and lines 84 to 99 alone would add the message; the visit raises
  \<^verbatim>\<open>AttributeError\<close> in the check before them (line 166, for
  \<^verbatim>\<open>f\<close> defined under an \<^verbatim>\<open>if\<close>) and adds nothing.
\<close>

theorem frame_check_not_reached_after_raise:
  "check_frame node func args keywords msgs =
     (msgs @ replicate
        (if in_frameobject (Some node) \<and> in_property (Some node)
         then length (filter (frame_missing args keywords) (infer (infer_gen func))) else 0)
        (Message E7004 node (node_as_string node)), None) \<and>
   visit_callfunc (ex_property_match [ex_literal_arg] (Some None)) [] =
     ([Message E7004 (ex_property_match [ex_literal_arg] (Some None)) ''stbt.match(...)''], None) \<and>
   visit_callfunc (ex_property_match [ex_literal_arg, ex_frame_arg] (Some None)) [] = ([], None) \<and>
   visit_callfunc (ex_property_match [ex_literal_arg] (Some (Some [Some ''frame'']))) [] =
     ([], None) \<and>
   visit_callfunc (ex_property_match [ex_literal_arg, ex_region_keyword] None) [] =
     ([Message E7004 (ex_property_match [ex_literal_arg, ex_region_keyword] None)
         ''stbt.match(...)''], None) \<and>
   visit_callfunc (ex_property_match [ex_literal_arg, ex_frame_keyword] None) [] = ([], None) \<and>
   kind ex_crashing_call =
     Call ex_wait_until_match_func [ex_nested_call_arg, ex_literal_arg] (Some None) \<and>
   in_frameobject (Some ex_crashing_call) \<and> in_property (Some ex_crashing_call) \<and>
   infer (infer_gen ex_wait_until_match_func) = [ex_wait_until_match_def] \<and>
   is_FunctionDef ex_wait_until_match_def \<and>
   list_index (argnames ex_wait_until_match_def) ''frame'' = Inr 2 \<and>
   length (positional_args [ex_nested_call_arg, ex_literal_arg]) = 2 \<and>
   Some ''frame'' \<notin> set (keyword_names [ex_nested_call_arg, ex_literal_arg] (Some None)) \<and>
   frame_missing [ex_nested_call_arg, ex_literal_arg] (Some None) ex_wait_until_match_def \<and>
   check_frame ex_crashing_call ex_wait_until_match_func [ex_nested_call_arg, ex_literal_arg]
     (Some None) [] = ([Message E7004 ex_crashing_call ''wait_until_match(...)''], None) \<and>
   visit_callfunc ex_crashing_call [] = ([], Some AttributeError)"
proof -
  have g: "check_frame node func args keywords msgs =
     (msgs @ replicate
        (if in_frameobject (Some node) \<and> in_property (Some node)
         then length (filter (frame_missing args keywords) (infer (infer_gen func))) else 0)
        (Message E7004 node (node_as_string node)), None)"
    by (rule check_frame_eq)
  have e: "visit_callfunc (ex_property_match [ex_literal_arg] (Some None)) [] =
     ([Message E7004 (ex_property_match [ex_literal_arg] (Some None)) ''stbt.match(...)''], None) \<and>
   visit_callfunc (ex_property_match [ex_literal_arg, ex_frame_arg] (Some None)) [] = ([], None) \<and>
   visit_callfunc (ex_property_match [ex_literal_arg] (Some (Some [Some ''frame'']))) [] =
     ([], None) \<and>
   visit_callfunc (ex_property_match [ex_literal_arg, ex_region_keyword] None) [] =
     ([Message E7004 (ex_property_match [ex_literal_arg, ex_region_keyword] None)
         ''stbt.match(...)''], None) \<and>
   visit_callfunc (ex_property_match [ex_literal_arg, ex_frame_keyword] None) [] = ([], None)"
    by (simp add: ex_module_def ex_class_def ex_property_def ex_stbt_match_def ex_match_func_def
        ex_string_object_def ex_literal_arg_def ex_frame_arg_def ex_frame_keyword_def
        ex_region_keyword_def ex_call_def ex_property_match_def visit_callfunc_defs re_eval_defs)
  have f: "kind ex_crashing_call =
     Call ex_wait_until_match_func [ex_nested_call_arg, ex_literal_arg] (Some None) \<and>
   in_frameobject (Some ex_crashing_call) \<and> in_property (Some ex_crashing_call) \<and>
   infer (infer_gen ex_wait_until_match_func) = [ex_wait_until_match_def] \<and>
   is_FunctionDef ex_wait_until_match_def \<and>
   list_index (argnames ex_wait_until_match_def) ''frame'' = Inr 2 \<and>
   length (positional_args [ex_nested_call_arg, ex_literal_arg]) = 2 \<and>
   Some ''frame'' \<notin> set (keyword_names [ex_nested_call_arg, ex_literal_arg] (Some None)) \<and>
   frame_missing [ex_nested_call_arg, ex_literal_arg] (Some None) ex_wait_until_match_def \<and>
   check_frame ex_crashing_call ex_wait_until_match_func [ex_nested_call_arg, ex_literal_arg]
     (Some None) [] = ([Message E7004 ex_crashing_call ''wait_until_match(...)''], None) \<and>
   visit_callfunc ex_crashing_call [] = ([], Some AttributeError)"
    by (simp add: ex_module_def ex_class_def ex_property_def ex_string_object_def ex_YES_def
        ex_literal_arg_def ex_call_def ex_nested_def_def ex_nested_func_def
        ex_nested_call_arg_def ex_wait_until_match_def_def ex_wait_until_match_func_def
        ex_crashing_call_def visit_callfunc_defs frame_missing_def re_eval_defs)
  from g e f show ?thesis by (intro conjI) (elim conjE, assumption)+
qed

text \<open>
  C8. \<^verbatim>\<open>_is_callable\<close> tells whether some inferred object is callable when
  inference yields any, and otherwise, for a call, is what
  \<^verbatim>\<open>_is_function_named\<close> makes of its callee and
  \<^verbatim>\<open>functools.partial\<close>, an exception included; so it returns true for
  \<^verbatim>\<open>functools.partial(stbt.match, ...)\<close> and false for a string literal. The
  code does not do what the claim says for the argument \<^verbatim>\<open>f(key)\<close> with
  \<^verbatim>\<open>f\<close> defined under an \<^verbatim>\<open>if\<close>: inference of the argument
  yields nothing and its callee is not \<^verbatim>\<open>functools.partial\<close>, so the answer
  should be false; but \<^verbatim>\<open>_is_function_named\<close> raises
  \<^verbatim>\<open>AttributeError\<close> (line 166) and so does \<^verbatim>\<open>_is_callable\<close>.
\<close>

theorem is_callable_raises_on_nested_def:
  "is_callable a =
     (if infer (infer_gen a) \<noteq> [] then Inr (list_ex callable (infer (infer_gen a)))
      else (case shape a of
              CallE func \<Rightarrow> is_function_named func ''functools.partial''
            | _ \<Rightarrow> Inr False)) \<and>
   is_callable ex_partial_arg = Inr True \<and>
   is_callable ex_literal_arg = Inr False \<and>
   infer (infer_gen ex_nested_call_arg) = [] \<and>
   shape ex_nested_call_arg = CallE ex_nested_func \<and>
   as_string ex_nested_func \<noteq> ''functools.partial'' \<and>
   infer (infer_gen ex_nested_func) = [ex_nested_def] \<and>
   is_FunctionDef ex_nested_def \<and> parent_name ex_nested_def = NoAttribute \<and>
   is_function_named ex_nested_func ''functools.partial'' = Inl AttributeError \<and>
   is_callable ex_nested_call_arg = Inl AttributeError"
proof -
  have g: "is_callable a =
     (if infer (infer_gen a) \<noteq> [] then Inr (list_ex callable (infer (infer_gen a)))
      else (case shape a of
              CallE func \<Rightarrow> is_function_named func ''functools.partial''
            | _ \<Rightarrow> Inr False))"
    by (rule is_callable_eq)
  have e: "is_callable ex_partial_arg = Inr True \<and>
   is_callable ex_literal_arg = Inr False \<and>
   infer (infer_gen ex_nested_call_arg) = [] \<and>
   shape ex_nested_call_arg = CallE ex_nested_func \<and>
   as_string ex_nested_func \<noteq> ''functools.partial'' \<and>
   infer (infer_gen ex_nested_func) = [ex_nested_def] \<and>
   is_FunctionDef ex_nested_def \<and> parent_name ex_nested_def = NoAttribute \<and>
   is_function_named ex_nested_func ''functools.partial'' = Inl AttributeError \<and>
   is_callable ex_nested_call_arg = Inl AttributeError"
    by (simp add: ex_string_object_def ex_YES_def ex_partial_func_def ex_partial_arg_def
        ex_literal_arg_def ex_nested_def_def ex_nested_func_def ex_nested_call_arg_def
        is_callable_def is_function_named_def)
  from g e show ?thesis by (rule conjI)
qed

text \<open>
  C9, as amended. \<^verbatim>\<open>_infer\<close> never raises and never yields
  \<^verbatim>\<open>YES\<close>: it yields the objects other than \<^verbatim>\<open>YES\<close> that the
  resolver has yielded before it ended or raised, so nothing if the resolver raises
  before yielding any such object. When \<^verbatim>\<open>_infer\<close> yields nothing for the
  callee of a call, the checks for E7002 and E7004 add nothing and raise nothing, and
  the visit adds no E7002 and no E7004.
\<close>

theorem infer_swallows_resolver_failure:
  "(\<forall>d \<in> set (infer r). \<not> is_YES d) \<and>
   infer r = filter (\<lambda>d. \<not> is_YES d) (yielded r) \<and>
   (list_all is_YES (yielded r) \<longrightarrow> infer r = []) \<and>
   (kind node = Call func args keywords \<and> infer (infer_gen func) = [] \<longrightarrow>
      check_unused_return node func msgs = msgs \<and>
      check_frame node func args keywords msgs = (msgs, None) \<and>
      (\<exists>new. fst (visit_callfunc node msgs) = msgs @ new \<and>
             count_id E7002 new = 0 \<and> count_id E7004 new = 0))"
proof (intro conjI impI)
  show "\<forall>d \<in> set (infer r). \<not> is_YES d" by (simp add: infer_filter)
  show "infer r = filter (\<lambda>d. \<not> is_YES d) (yielded r)" by (rule infer_filter)
  show "infer r = []" if "list_all is_YES (yielded r)"
    using that by (simp add: infer_filter list_all_iff)
  show "check_unused_return node func msgs = msgs"
    if "kind node = Call func args keywords \<and> infer (infer_gen func) = []"
    using that by (simp add: check_unused_return_eq)
  show "check_frame node func args keywords msgs = (msgs, None)"
    if "kind node = Call func args keywords \<and> infer (infer_gen func) = []"
    using that by (simp add: check_frame_eq)
  show "\<exists>new. fst (visit_callfunc node msgs) = msgs @ new \<and>
          count_id E7002 new = 0 \<and> count_id E7004 new = 0"
    if h: "kind node = Call func args keywords \<and> infer (infer_gen func) = []"
  proof -
    from h have k: "kind node = Call func args keywords" and e: "infer (infer_gen func) = []"
      by simp_all
    have ib: "\<forall>m \<in> set (wait_until_messages node func args). msgid m = E7003"
      by (rule wait_until_messages_ids)
    have v: "fst (visit_callfunc node msgs) = msgs @ wait_until_messages node func args"
      by (simp add: visit_callfunc_fst [OF k] e)
    have c: "count_id E7002 (wait_until_messages node func args) = 0 \<and>
        count_id E7004 (wait_until_messages node func args) = 0"
      using ib by (simp add: count_id_def filter_empty_conv)
    from v c show ?thesis by (intro exI [of _ "wait_until_messages node func args"] conjI) simp_all
  qed
qed

text \<open>
  Witness: a resolver that yields \<^verbatim>\<open>YES\<close> and then raises, one that
  yields \<^verbatim>\<open>YES\<close> and a definition and then raises, and the call
  \<^verbatim>\<open>filename.endswith(".png")\<close>, for whose callee the resolver raises.
\<close>

theorem infer_swallows_resolver_failure_witness:
  "infer (Yield ex_YES Raise) = [] \<and>
   infer (Yield ex_YES (Yield ex_stbt_match Raise)) = [ex_stbt_match] \<and>
   \<not> is_YES ex_stbt_match \<and>
   (\<exists>new. fst (visit_callfunc ex_endswith_call []) = new \<and>
      count_id E7002 new = 0 \<and> count_id E7004 new = 0)"
proof -
  have k: "kind ex_endswith_call =
      Call (ExprNode ''filename.endswith'' Raise OtherE) [ex_image_arg ''.png''] (Some None)"
    by (simp add: ex_endswith_call_def)
  have e: "infer (infer_gen (ExprNode ''filename.endswith'' Raise OtherE)) = []"
    by simp
  have y: "list_all is_YES (yielded (Yield ex_YES Raise))"
    by (simp add: ex_YES_def)
  note t = infer_swallows_resolver_failure
    [of "Yield ex_YES Raise" ex_endswith_call "ExprNode ''filename.endswith'' Raise OtherE"
      "[ex_image_arg ''.png'']" "Some None" "[]"]
  from t
  have a: "list_all is_YES (yielded (Yield ex_YES Raise)) \<longrightarrow> infer (Yield ex_YES Raise) = []"
    by (elim conjE)
  from t
  have b: "kind ex_endswith_call =
        Call (ExprNode ''filename.endswith'' Raise OtherE) [ex_image_arg ''.png''] (Some None) \<and>
        infer (infer_gen (ExprNode ''filename.endswith'' Raise OtherE)) = [] \<longrightarrow>
      check_unused_return ex_endswith_call (ExprNode ''filename.endswith'' Raise OtherE) [] = [] \<and>
      check_frame ex_endswith_call (ExprNode ''filename.endswith'' Raise OtherE)
        [ex_image_arg ''.png''] (Some None) [] = ([], None) \<and>
      (\<exists>new. fst (visit_callfunc ex_endswith_call []) = [] @ new \<and>
             count_id E7002 new = 0 \<and> count_id E7004 new = 0)"
    by (elim conjE)
  note u = infer_swallows_resolver_failure
    [of "Yield ex_YES (Yield ex_stbt_match Raise)" ex_endswith_call
      "ExprNode ''filename.endswith'' Raise OtherE" "[ex_image_arg ''.png'']" "Some None" "[]"]
  from u
  have c: "\<forall>d \<in> set (infer (Yield ex_YES (Yield ex_stbt_match Raise))). \<not> is_YES d"
    by (elim conjE)
  from u
  have d: "infer (Yield ex_YES (Yield ex_stbt_match Raise)) =
      filter (\<lambda>d. \<not> is_YES d) (yielded (Yield ex_YES (Yield ex_stbt_match Raise)))"
    by (elim conjE)
  from a y have 1: "infer (Yield ex_YES Raise) = []" by (rule mp)
  from d have 2: "infer (Yield ex_YES (Yield ex_stbt_match Raise)) = [ex_stbt_match]"
    by (simp add: ex_YES_def ex_stbt_match_def)
  have "ex_stbt_match \<in> set (infer (Yield ex_YES (Yield ex_stbt_match Raise)))"
    unfolding 2 by simp
  with c have 3: "\<not> is_YES ex_stbt_match" by (rule bspec)
  from k e have "kind ex_endswith_call =
        Call (ExprNode ''filename.endswith'' Raise OtherE) [ex_image_arg ''.png''] (Some None) \<and>
        infer (infer_gen (ExprNode ''filename.endswith'' Raise OtherE)) = []"
    by (intro conjI)
  with b have "check_unused_return ex_endswith_call
        (ExprNode ''filename.endswith'' Raise OtherE) [] = [] \<and>
      check_frame ex_endswith_call (ExprNode ''filename.endswith'' Raise OtherE)
        [ex_image_arg ''.png''] (Some None) [] = ([], None) \<and>
      (\<exists>new. fst (visit_callfunc ex_endswith_call []) = [] @ new \<and>
             count_id E7002 new = 0 \<and> count_id E7004 new = 0)"
    by (rule mp)
  then have "\<exists>new. fst (visit_callfunc ex_endswith_call []) = [] @ new \<and>
             count_id E7002 new = 0 \<and> count_id E7004 new = 0"
    by (elim conjE)
  then have 4: "\<exists>new. fst (visit_callfunc ex_endswith_call []) = new \<and>
      count_id E7002 new = 0 \<and> count_id E7004 new = 0"
    by simp
  from 1 2 3 4 show ?thesis by (intro conjI)
qed

text \<open>
  C9 as stated fails: when the resolver yields the definition of
  \<^verbatim>\<open>stbt.match\<close> and then raises, \<^verbatim>\<open>_infer\<close> has yielded that
  definition; the result is not empty.
\<close>

theorem resolver_failure_after_yield_counterexample:
  "raises (Yield ex_stbt_match Raise) \<and> infer (Yield ex_stbt_match Raise) = [ex_stbt_match] \<and>
   infer (Yield ex_stbt_match Raise) \<noteq> []"
  by (simp add: ex_stbt_match_def)

end
